theory Spec2Isabelle
  imports Complex_Main "HOL-Library.Word" "HOL-Library.List_Lexorder" "HOL-Library.Char_ord"
begin

unbundle bit_operations_syntax

section \<open>BSON values (bson.h, types.h)\<close>

text \<open>
  A \<^verbatim>\<open>double\<close> is not-a-number, an infinity, or a finite value; every finite
  double is a rational number, and only comparisons and truncation are applied
  to it here, so finite values are carried as rationals.
\<close>

datatype dbl = NaN | NegInf | Finite rat | PosInf

text \<open>
  One constructor per element type of \<^verbatim>\<open>impl::types\<close>.  Objects and arrays
  are sequences of named elements (an array is stored as a document whose names
  are the indices).  An \<^verbatim>\<open>ObjectID\<close> is its 12 bytes read as one big-endian
  number, so that \<^verbatim>\<open>memcmp\<close> order is the order of the number.
\<close>

datatype bson =
    BDouble dbl
  | BString string
  | BObject "(string \<times> bson) list"
  | BArray "(string \<times> bson) list"
  | BBinary "8 word list"
  | BObjectID "96 word"
  | BBool bool
  | BTime "64 word"
  | BNull
  | BInt32 "32 word"
  | BTimestamp "64 word"
  | BInt64 "64 word"
  | BMinKey
  | BMaxKey

type_synonym object = "(string \<times> bson) list"

text \<open>An \<^verbatim>\<open>Element\<close> that does not exist is \<open>None\<close>.\<close>

type_synonym element = "(string \<times> bson) option"

datatype error =
    TypeMismatch
  | AssertionFailed
  | ShardConfigBroken string nat
  | KeyNotFound
  | PartitionGap string
  | UndefinedBehaviour

definition bindE :: "error + 'a \<Rightarrow> ('a \<Rightarrow> error + 'b) \<Rightarrow> error + 'b" where
  "bindE x f = (case x of Inl e \<Rightarrow> Inl e | Inr a \<Rightarrow> f a)"

text \<open>\<^verbatim>\<open>Object::operator[]\<close>: the first element with the given name.\<close>

fun lookup :: "object \<Rightarrow> string \<Rightarrow> bson option" where
  "lookup [] key = None"
| "lookup ((name, v) # rest) key = (if name = key then Some v else lookup rest key)"

fun type_id :: "bson \<Rightarrow> int" where
  "type_id (BDouble _) = 1"
| "type_id (BString _) = 2"
| "type_id (BObject _) = 3"
| "type_id (BArray _) = 4"
| "type_id (BBinary _) = 5"
| "type_id (BObjectID _) = 7"
| "type_id (BBool _) = 8"
| "type_id (BTime _) = 9"
| "type_id BNull = 10"
| "type_id (BInt32 _) = 16"
| "type_id (BTimestamp _) = 17"
| "type_id (BInt64 _) = 18"
| "type_id BMinKey = -1"
| "type_id BMaxKey = 127"

definition isNumber :: "bson \<Rightarrow> bool" where
  "isNumber v = (case v of BInt32 _ \<Rightarrow> True | BInt64 _ \<Rightarrow> True | BDouble _ \<Rightarrow> True | _ \<Rightarrow> False)"

subsection \<open>Numeric conversions (\<^verbatim>\<open>Element::asNumber\<close>)\<close>

text \<open>
  \<^verbatim>\<open>static_cast\<close> from a double to an integer type truncates towards zero and
  is undefined when the truncated value does not fit; from a wider to a narrower
  integer it keeps the low bits; from \<^verbatim>\<open>int32_t\<close> to a 64-bit type it
  sign-extends.
\<close>

definition trunc :: "rat \<Rightarrow> int" where
  "trunc q = (if 0 \<le> q then \<lfloor>q\<rfloor> else \<lceil>q\<rceil>)"

definition double_to_integer :: "int \<Rightarrow> int \<Rightarrow> dbl \<Rightarrow> error + int" where
  "double_to_integer lo hi d =
     (case d of
        Finite q \<Rightarrow> if lo \<le> trunc q \<and> trunc q \<le> hi then Inr (trunc q)
                    else Inl UndefinedBehaviour
      | _ \<Rightarrow> Inl UndefinedBehaviour)"

definition as_size_t :: "bson \<Rightarrow> error + 64 word" where
  "as_size_t v =
     (case v of
        BInt32 x \<Rightarrow> Inr (scast x)
      | BInt64 x \<Rightarrow> Inr x
      | BDouble d \<Rightarrow> bindE (double_to_integer 0 (2 ^ 64 - 1) d) (\<lambda>i. Inr (word_of_int i))
      | _ \<Rightarrow> Inl TypeMismatch)"

definition as_int32 :: "bson \<Rightarrow> error + 32 word" where
  "as_int32 v =
     (case v of
        BInt32 x \<Rightarrow> Inr x
      | BInt64 x \<Rightarrow> Inr (ucast x)
      | BDouble d \<Rightarrow> bindE (double_to_integer (- (2 ^ 31)) (2 ^ 31 - 1) d) (\<lambda>i. Inr (word_of_int i))
      | _ \<Rightarrow> Inl TypeMismatch)"

definition as_int64 :: "bson \<Rightarrow> error + 64 word" where
  "as_int64 v =
     (case v of
        BInt32 x \<Rightarrow> Inr (scast x)
      | BInt64 x \<Rightarrow> Inr x
      | BDouble d \<Rightarrow> bindE (double_to_integer (- (2 ^ 63)) (2 ^ 63 - 1) d) (\<lambda>i. Inr (word_of_int i))
      | _ \<Rightarrow> Inl TypeMismatch)"

text \<open>\<^verbatim>\<open>Element::as<bool>\<close>: a boolean, or a number read as \<^verbatim>\<open>int\<close> and tested against zero.\<close>

definition as_bool :: "bson \<Rightarrow> error + bool" where
  "as_bool v =
     (case v of
        BBool b \<Rightarrow> Inr b
      | _ \<Rightarrow> if isNumber v then bindE (as_int32 v) (\<lambda>i. Inr (i \<noteq> 0)) else Inl TypeMismatch)"

subsection \<open>Ordering of elements and objects\<close>

text \<open>
  The comparison routines of bson.h are templates over the comparison functor;
  \<open>cmp\<close> names the functors used here (\<^verbatim>\<open>std::less\<close>,
  \<^verbatim>\<open>std::not_equal_to\<close>, \<^verbatim>\<open>std::greater_equal\<close>).
\<close>

datatype cmp = Less | NotEqual | GreaterEqual

definition cmp_ord :: "cmp \<Rightarrow> 'a::linorder \<Rightarrow> 'a \<Rightarrow> bool" where
  "cmp_ord c a b = (case c of Less \<Rightarrow> a < b | NotEqual \<Rightarrow> a \<noteq> b | GreaterEqual \<Rightarrow> b \<le> a)"

fun dbl_less :: "dbl \<Rightarrow> dbl \<Rightarrow> bool" where
  "dbl_less NaN _ = False"
| "dbl_less _ NaN = False"
| "dbl_less NegInf b = (b \<noteq> NegInf)"
| "dbl_less (Finite x) (Finite y) = (x < y)"
| "dbl_less (Finite x) b = (b = PosInf)"
| "dbl_less PosInf _ = False"

definition dbl_eq :: "dbl \<Rightarrow> dbl \<Rightarrow> bool" where
  "dbl_eq a b = (a \<noteq> NaN \<and> a = b)"

definition cmp_dbl :: "cmp \<Rightarrow> dbl \<Rightarrow> dbl \<Rightarrow> bool" where
  "cmp_dbl c a b =
     (case c of Less \<Rightarrow> dbl_less a b | NotEqual \<Rightarrow> \<not> dbl_eq a b
      | GreaterEqual \<Rightarrow> dbl_less b a \<or> dbl_eq a b)"

text \<open>\<^verbatim>\<open>std::vector<char>\<close> compares lexicographically on signed bytes.\<close>

fun chars_less :: "8 word list \<Rightarrow> 8 word list \<Rightarrow> bool" where
  "chars_less [] [] = False"
| "chars_less [] (y # ys) = True"
| "chars_less (x # xs) [] = False"
| "chars_less (x # xs) (y # ys) =
     (if sint x < sint y then True else if sint y < sint x then False else chars_less xs ys)"

definition cmp_chars :: "cmp \<Rightarrow> 8 word list \<Rightarrow> 8 word list \<Rightarrow> bool" where
  "cmp_chars c a b =
     (case c of Less \<Rightarrow> chars_less a b | NotEqual \<Rightarrow> a \<noteq> b | GreaterEqual \<Rightarrow> \<not> chars_less a b)"

text \<open>
  \<^verbatim>\<open>Element::cmp\<close> against an element that does not exist (name \<^verbatim>\<open>""\<close>,
  \<^verbatim>\<open>safeType\<close> 0): names first, then types; the type of an existing element is
  never 0.
\<close>

definition cmp_with_missing :: "cmp \<Rightarrow> string \<times> bson \<Rightarrow> bool" where
  "cmp_with_missing c x =
     (if fst x \<noteq> '''' then cmp_ord c (fst x) '''' else cmp_ord c (type_id (snd x)) 0)"

definition cmp_missing_with :: "cmp \<Rightarrow> string \<times> bson \<Rightarrow> bool" where
  "cmp_missing_with c y =
     (if fst y \<noteq> '''' then cmp_ord c '''' (fst y) else cmp_ord c 0 (type_id (snd y)))"

text \<open>
  \<open>cmp_objects\<close> is \<^verbatim>\<open>impl::Base::cmp\<close>, \<open>cmp_elements\<close> is
  \<^verbatim>\<open>Element::cmp\<close> on two existing elements, \<open>cmpValues\<close> is the
  \<^verbatim>\<open>impl::Compare\<close> chain, which dispatches on the type of the left element
  (the types are equal when it is reached).
\<close>

fun cmp_objects :: "cmp \<Rightarrow> object \<Rightarrow> object \<Rightarrow> bool"
and cmp_elements :: "cmp \<Rightarrow> string \<times> bson \<Rightarrow> string \<times> bson \<Rightarrow> bool"
and cmpValues :: "cmp \<Rightarrow> bson \<Rightarrow> bson \<Rightarrow> bool" where
  "cmp_objects c (x # xs) (y # ys) =
     (if cmp_elements NotEqual x y then cmp_elements c x y else cmp_objects c xs ys)"
| "cmp_objects c (x # xs) [] = cmp_with_missing c x"
| "cmp_objects c [] (y # ys) = cmp_missing_with c y"
| "cmp_objects c [] [] = cmp_ord c (0::int) 0"
| "cmp_elements c (n, a) (m, b) =
     (if n \<noteq> m then cmp_ord c n m
      else if type_id a \<noteq> type_id b then cmp_ord c (type_id a) (type_id b)
      else cmpValues c a b)"
| "cmpValues c (BDouble x) b = (case b of BDouble y \<Rightarrow> cmp_dbl c x y | _ \<Rightarrow> False)"
| "cmpValues c (BString x) b = (case b of BString y \<Rightarrow> cmp_ord c x y | _ \<Rightarrow> False)"
| "cmpValues c (BObject x) b = (case b of BObject y \<Rightarrow> cmp_objects c x y | _ \<Rightarrow> False)"
| "cmpValues c (BArray x) b = (case b of BArray y \<Rightarrow> cmp_objects c x y | _ \<Rightarrow> False)"
| "cmpValues c (BBinary x) b = (case b of BBinary y \<Rightarrow> cmp_chars c x y | _ \<Rightarrow> False)"
| "cmpValues c (BObjectID x) b = (case b of BObjectID y \<Rightarrow> cmp_ord c x y | _ \<Rightarrow> False)"
| "cmpValues c (BBool x) b = (case b of BBool y \<Rightarrow> cmp_ord c x y | _ \<Rightarrow> False)"
| "cmpValues c (BTime x) b = (case b of BTime y \<Rightarrow> cmp_ord c (sint x) (sint y) | _ \<Rightarrow> False)"
| "cmpValues c BNull b = cmp_ord c (0::int) 0"
| "cmpValues c (BInt32 x) b = (case b of BInt32 y \<Rightarrow> cmp_ord c (sint x) (sint y) | _ \<Rightarrow> False)"
| "cmpValues c (BTimestamp x) b = (case b of BTimestamp y \<Rightarrow> cmp_ord c x y | _ \<Rightarrow> False)"
| "cmpValues c (BInt64 x) b = (case b of BInt64 y \<Rightarrow> cmp_ord c (sint x) (sint y) | _ \<Rightarrow> False)"
| "cmpValues c BMinKey b = cmp_ord c (0::int) 0"
| "cmpValues c BMaxKey b = cmp_ord c (0::int) 0"

section \<open>Acknowledgement merging (write.cpp)\<close>

text \<open>
  The local variables of \<^verbatim>\<open>defaultAckMerger\<close>.  An element variable
  (\<^verbatim>\<open>err\<close>, \<^verbatim>\<open>code\<close>, \<^verbatim>\<open>upserted\<close>) holds the value of the element
  assigned to it, or \<open>None\<close> while it does not exist.
\<close>

record ack_vars =
  v_err :: "bson option"
  v_code :: "bson option"
  v_n :: "64 word"
  v_hasUpdatedExisting :: bool
  v_updatedExisting :: bool
  v_upserted :: "bson option"
  v_wtimeout :: bool
  v_waited :: "32 word"
  v_wtime :: "32 word"

definition ack_vars_init :: ack_vars where
  "ack_vars_init =
     \<lparr>v_err = None, v_code = None, v_n = 0, v_hasUpdatedExisting = False,
      v_updatedExisting = False, v_upserted = None, v_wtimeout = False,
      v_waited = 0, v_wtime = 0\<rparr>"

definition smax32 :: "32 word \<Rightarrow> 32 word \<Rightarrow> 32 word" where
  "smax32 a b = (if sint a < sint b then b else a)"

text \<open>
  The body of the inner loop for one element.  The source tests the name against
  eight different literals in eight consecutive \<^verbatim>\<open>if\<close> statements; at most
  one of them applies, so they are written as one chain.  \<^verbatim>\<open>||\<close> does not
  evaluate its right operand when the left one is true.
\<close>

definition merge_element :: "ack_vars \<Rightarrow> string \<times> bson \<Rightarrow> error + ack_vars" where
  "merge_element s elt =
     (let name = fst elt; v = snd elt in
      if name = ''err'' then
        Inr (if v_err s = None \<or> v_err s = Some BNull then s\<lparr>v_err := Some v\<rparr> else s)
      else if name = ''code'' then
        Inr (if v_code s = None then s\<lparr>v_code := Some v\<rparr> else s)
      else if name = ''n'' then
        bindE (as_size_t v) (\<lambda>x. Inr (s\<lparr>v_n := v_n s + x\<rparr>))
      else if name = ''updatedExisting'' then
        (if v_updatedExisting s then Inr (s\<lparr>v_hasUpdatedExisting := True\<rparr>)
         else bindE (as_bool v)
                (\<lambda>b. Inr (s\<lparr>v_hasUpdatedExisting := True, v_updatedExisting := b\<rparr>)))
      else if name = ''upserted'' then
        Inr (if v_upserted s = None then s\<lparr>v_upserted := Some v\<rparr> else s)
      else if name = ''wtimeout'' then
        (if v_wtimeout s then Inr s
         else bindE (as_bool v) (\<lambda>b. Inr (s\<lparr>v_wtimeout := b\<rparr>)))
      else if name = ''waited'' then
        bindE (as_int32 v) (\<lambda>x. Inr (s\<lparr>v_waited := smax32 (v_waited s) x\<rparr>))
      else if name = ''wtime'' then
        bindE (as_int32 v) (\<lambda>x. Inr (s\<lparr>v_wtime := smax32 (v_wtime s) x\<rparr>))
      else Inr s)"

fun merge_elements :: "ack_vars \<Rightarrow> object \<Rightarrow> error + ack_vars" where
  "merge_elements s [] = Inr s"
| "merge_elements s (elt # rest) = bindE (merge_element s elt) (\<lambda>s'. merge_elements s' rest)"

fun merge_rets :: "ack_vars \<Rightarrow> object list \<Rightarrow> error + ack_vars" where
  "merge_rets s [] = Inr s"
| "merge_rets s (ret # rets) = bindE (merge_elements s ret) (\<lambda>s'. merge_rets s' rets)"

definition opt_field :: "string \<Rightarrow> bson option \<Rightarrow> object" where
  "opt_field name v = (case v of None \<Rightarrow> [] | Some x \<Rightarrow> [(name, x)])"

text \<open>The \<^verbatim>\<open>ObjectBuilder\<close> part: the fields in the order they are put.\<close>

definition build_ack :: "ack_vars \<Rightarrow> object" where
  "build_ack s =
     [(''ok'', BInt32 (if v_err s \<noteq> None \<and> v_err s \<noteq> Some BNull then 0 else 1))]
     @ opt_field ''err'' (v_err s)
     @ opt_field ''code'' (v_code s)
     @ [(''n'', if 2147483647 < unat (v_n s) then BInt64 (v_n s) else BInt32 (ucast (v_n s)))]
     @ (if v_hasUpdatedExisting s then [(''updatedExisting'', BBool (v_updatedExisting s))] else [])
     @ opt_field ''upserted'' (v_upserted s)
     @ (if v_wtimeout s then [(''wtimeout'', BBool True)] else [])
     @ (if v_waited s \<noteq> 0 then [(''waited'', BInt32 (v_waited s))] else [])
     @ (if v_wtime s \<noteq> 0 then [(''wtime'', BInt32 (v_wtime s))] else [])"

definition defaultAckMerger :: "object list \<Rightarrow> error + object" where
  "defaultAckMerger rets =
     (if rets = [] then Inr []
      else if length rets = 1 then Inr (hd rets)
      else bindE (merge_rets ack_vars_init rets) (\<lambda>s. Inr (build_ack s)))"

text \<open>The acknowledgement of a \<^verbatim>\<open>NullWrite\<close> made by the write planner.\<close>

definition null_ack :: object where
  "null_ack = [(''ok'', BInt32 1), (''n'', BInt32 0)]"

subsection \<open>What a merged acknowledgement is said to hold\<close>

text \<open>
  The quantities the description of the merger speaks of, read off the list of
  sub-acknowledgements: the values of a field in visiting order, the first value of
  a field, the first \<^verbatim>\<open>err\<close> that is not null, the sum of the \<^verbatim>\<open>n\<close>
  fields, and the largest value of a field (0 when no sub-acknowledgement has it).
\<close>

definition values_of :: "string \<Rightarrow> object list \<Rightarrow> bson list" where
  "values_of name rets = map snd (filter (\<lambda>e. fst e = name) (concat rets))"

definition first_value :: "string \<Rightarrow> object list \<Rightarrow> bson option" where
  "first_value name rets = (case values_of name rets of [] \<Rightarrow> None | v # _ \<Rightarrow> Some v)"

definition first_error :: "object list \<Rightarrow> bson option" where
  "first_error rets = List.find (\<lambda>v. v \<noteq> BNull) (values_of ''err'' rets)"

fun int_value :: "bson \<Rightarrow> int" where
  "int_value (BInt32 x) = sint x"
| "int_value (BInt64 x) = sint x"
| "int_value _ = 0"

definition total_n :: "object list \<Rightarrow> int" where
  "total_n rets = sum_list (map int_value (values_of ''n'' rets))"

definition max_of :: "string \<Rightarrow> object list \<Rightarrow> int" where
  "max_of name rets = fold max (map int_value (values_of name rets)) 0"

fun nonneg_int :: "bson \<Rightarrow> bool" where
  "nonneg_int (BInt32 x) = (0 \<le> sint x)"
| "nonneg_int (BInt64 x) = (0 \<le> sint x)"
| "nonneg_int _ = False"

fun nonneg_int32 :: "bson \<Rightarrow> bool" where
  "nonneg_int32 (BInt32 x) = (0 \<le> sint x)"
| "nonneg_int32 _ = False"

fun is_bool :: "bson \<Rightarrow> bool" where
  "is_bool (BBool b) = True"
| "is_bool _ = False"

definition wellformed_element :: "string \<times> bson \<Rightarrow> bool" where
  "wellformed_element e =
     ((fst e = ''n'' \<longrightarrow> nonneg_int (snd e))
      \<and> (fst e = ''updatedExisting'' \<longrightarrow> is_bool (snd e))
      \<and> (fst e = ''wtimeout'' \<longrightarrow> is_bool (snd e))
      \<and> (fst e = ''waited'' \<longrightarrow> nonneg_int32 (snd e))
      \<and> (fst e = ''wtime'' \<longrightarrow> nonneg_int32 (snd e)))"

definition wellformed_acks :: "object list \<Rightarrow> bool" where
  "wellformed_acks rets = list_all (list_all wellformed_element) rets"


subsection \<open>Auxiliary functions for the proofs about the merger\<close>

text \<open>
  On well-formed elements \<open>merge_element\<close> never throws and is the pure update
  \<open>pure_merge\<close>; \<open>err_acc\<close> and \<open>first_acc\<close> are the assignments to
  \<^verbatim>\<open>err\<close> and to \<^verbatim>\<open>code\<close>/\<^verbatim>\<open>upserted\<close> along a list of values.
\<close>

definition count_word :: "bson \<Rightarrow> 64 word" where
  "count_word v = word_of_int (int_value v)"

definition bool_value :: "bson \<Rightarrow> bool" where
  "bool_value v = (v = BBool True)"

definition int32_value :: "bson \<Rightarrow> 32 word" where
  "int32_value v = word_of_int (int_value v)"

definition pure_merge :: "string \<times> bson \<Rightarrow> ack_vars \<Rightarrow> ack_vars" where
  "pure_merge e s =
     s\<lparr>v_err := (if fst e = ''err'' \<and> (v_err s = None \<or> v_err s = Some BNull) then Some (snd e) else v_err s),
       v_code := (if fst e = ''code'' \<and> v_code s = None then Some (snd e) else v_code s),
       v_n := (if fst e = ''n'' then v_n s + count_word (snd e) else v_n s),
       v_hasUpdatedExisting := (v_hasUpdatedExisting s \<or> fst e = ''updatedExisting''),
       v_updatedExisting := (v_updatedExisting s \<or> (fst e = ''updatedExisting'' \<and> bool_value (snd e))),
       v_upserted := (if fst e = ''upserted'' \<and> v_upserted s = None then Some (snd e) else v_upserted s),
       v_wtimeout := (v_wtimeout s \<or> (fst e = ''wtimeout'' \<and> bool_value (snd e))),
       v_waited := (if fst e = ''waited'' then smax32 (v_waited s) (int32_value (snd e)) else v_waited s),
       v_wtime := (if fst e = ''wtime'' then smax32 (v_wtime s) (int32_value (snd e)) else v_wtime s)\<rparr>"

definition ev :: "string \<Rightarrow> object \<Rightarrow> bson list" where
  "ev name es = map snd (filter (\<lambda>e. fst e = name) es)"

fun err_acc :: "bson option \<Rightarrow> bson list \<Rightarrow> bson option" where
  "err_acc a [] = a"
| "err_acc a (v # vs) = err_acc (if a = None \<or> a = Some BNull then Some v else a) vs"

fun first_acc :: "bson option \<Rightarrow> bson list \<Rightarrow> bson option" where
  "first_acc a [] = a"
| "first_acc a (v # vs) = first_acc (if a = None then Some v else a) vs"

definition ack_fields ::
  "bson \<Rightarrow> bson option \<Rightarrow> bson option \<Rightarrow> bson \<Rightarrow> bson option \<Rightarrow> bson option
     \<Rightarrow> bson option \<Rightarrow> bson option \<Rightarrow> bson option \<Rightarrow> object" where
  "ack_fields a e c n u p w x y =
     [(''ok'', a)] @ opt_field ''err'' e @ opt_field ''code'' c @ [(''n'', n)]
     @ opt_field ''updatedExisting'' u @ opt_field ''upserted'' p @ opt_field ''wtimeout'' w
     @ opt_field ''waited'' x @ opt_field ''wtime'' y"

text \<open>
  An acknowledgement as a backend sends it: no field name twice, well-formed
  counters, and an \<^verbatim>\<open>n\<close> that is a non-negative 32-bit integer.
\<close>

definition plain_ack :: "object \<Rightarrow> bool" where
  "plain_ack a =
     (distinct (map fst a) \<and> list_all wellformed_element a
      \<and> (case lookup a ''n'' of Some (BInt32 x) \<Rightarrow> 0 \<le> sint x | _ \<Rightarrow> False))"

section \<open>Endpoint connection pools (backend.cpp, backend.h)\<close>

text \<open>
  A \<^verbatim>\<open>Connection\<close> either holds an implementation object or is empty
  (\<^verbatim>\<open>exists()\<close> is false); the empty connection is \<open>None\<close>.  The
  implementation object records whether the connection was created through the
  primary pool.  An \<^verbatim>\<open>Endpoint\<close> owns the two vectors \<^verbatim>\<open>conns_\<close> and
  \<^verbatim>\<open>primaries_\<close>; \<open>fresh\<close> numbers the connections the endpoint creates.
\<close>

record connection =
  conn_no :: nat
  isPrimary :: bool

record endpoint =
  conns :: "connection list"
  primaries :: "connection list"
  fresh :: nat

datatype pool = AnyPool | PrimaryPool

definition new_endpoint :: endpoint where
  "new_endpoint = \<lparr>conns = [], primaries = [], fresh = 0\<rparr>"

definition pool_of :: "pool \<Rightarrow> endpoint \<Rightarrow> connection list" where
  "pool_of p e = (case p of AnyPool \<Rightarrow> conns e | PrimaryPool \<Rightarrow> primaries e)"

definition set_pool :: "pool \<Rightarrow> connection list \<Rightarrow> endpoint \<Rightarrow> endpoint" where
  "set_pool p v e = (case p of AnyPool \<Rightarrow> e\<lparr>conns := v\<rparr> | PrimaryPool \<Rightarrow> e\<lparr>primaries := v\<rparr>)"

text \<open>\<^verbatim>\<open>Endpoint::pop\<close>: take the back of the vector, or the empty connection.\<close>

definition endpoint_pop :: "pool \<Rightarrow> endpoint \<Rightarrow> connection option \<times> endpoint" where
  "endpoint_pop p e =
     (if pool_of p e = [] then (None, e)
      else (Some (last (pool_of p e)), set_pool p (butlast (pool_of p e)) e))"

text \<open>\<^verbatim>\<open>Endpoint::get\<close>: a pooled connection, or a new one flagged with the pool it was asked from.\<close>

definition endpoint_get :: "pool \<Rightarrow> endpoint \<Rightarrow> connection \<times> endpoint" where
  "endpoint_get p e =
     (case endpoint_pop p e of
        (Some c, e') \<Rightarrow> (c, e')
      | (None, e') \<Rightarrow>
          (\<lparr>conn_no = fresh e', isPrimary = (p = PrimaryPool)\<rparr>, e'\<lparr>fresh := Suc (fresh e')\<rparr>))"

definition getAny :: "endpoint \<Rightarrow> connection \<times> endpoint" where
  "getAny e = endpoint_get AnyPool e"

definition getPrimary :: "endpoint \<Rightarrow> connection \<times> endpoint" where
  "getPrimary e = endpoint_get PrimaryPool e"

definition endpoint_flush :: "endpoint \<Rightarrow> endpoint" where
  "endpoint_flush e = e\<lparr>conns := [], primaries := []\<rparr>"

text \<open>
  \<^verbatim>\<open>Endpoint::release\<close>, with \<open>connPoolSize\<close> the value of
  \<^verbatim>\<open>options().connPoolSize\<close>.  A connection that is not pushed is dropped, which
  closes it.
\<close>

definition endpoint_release :: "nat \<Rightarrow> connection option \<Rightarrow> endpoint \<Rightarrow> endpoint" where
  "endpoint_release connPoolSize conn e =
     (case conn of
        None \<Rightarrow> e
      | Some c \<Rightarrow>
          (let p = (if isPrimary c then PrimaryPool else AnyPool) in
           if length (pool_of p e) < connPoolSize then set_pool p (pool_of p e @ [c]) e
           else e))"

datatype endpoint_op = Pop pool | Get pool | Flush | Release "connection option"

fun endpoint_step :: "nat \<Rightarrow> endpoint \<Rightarrow> endpoint_op \<Rightarrow> endpoint" where
  "endpoint_step n e (Pop p) = snd (endpoint_pop p e)"
| "endpoint_step n e (Get p) = snd (endpoint_get p e)"
| "endpoint_step n e Flush = endpoint_flush e"
| "endpoint_step n e (Release c) = endpoint_release n c e"

definition endpoint_run :: "nat \<Rightarrow> endpoint_op list \<Rightarrow> endpoint \<Rightarrow> endpoint" where
  "endpoint_run n ops e = foldl (endpoint_step n) e ops"

definition pools_bounded :: "nat \<Rightarrow> endpoint \<Rightarrow> bool" where
  "pools_bounded n e = (length (conns e) \<le> n \<and> length (primaries e) \<le> n)"

section \<open>Datasource identifiers (operations.h)\<close>

text \<open>
  \<^verbatim>\<open>DataSource::generateID\<close> increments a static 64-bit atomic counter that
  starts at zero and returns the incremented value.  The increment is atomic, so
  the calls of a process run are totally ordered; the counter is the state.
\<close>

definition generateID :: "64 word \<Rightarrow> 64 word \<times> 64 word" where
  "generateID g_id = (g_id + 1, g_id + 1)"

text \<open>The identifiers handed out by \<open>n\<close> successive constructions, oldest first.\<close>

fun generateIDs :: "nat \<Rightarrow> 64 word \<Rightarrow> 64 word list \<times> 64 word" where
  "generateIDs 0 g_id = ([], g_id)"
| "generateIDs (Suc n) g_id =
     (case generateID g_id of (i, g') \<Rightarrow>
        (case generateIDs n g' of (is, g'') \<Rightarrow> (i # is, g'')))"

section \<open>Chunks and their versions (config.h, config.cpp)\<close>

text \<open>
  A chunk version is an epoch (an ObjectID, twelve bytes compared bytewise) and a stamp
  (a 64-bit timestamp compared as an unsigned integer).  A chunk belongs to a namespace,
  covers the keys from \<open>lowerBound\<close> (inclusive) to \<open>upperBound\<close> (exclusive), and lives on a
  shard: \<open>shardID\<close> is the name of the shard read from the document, \<open>shard\<close> is the pointer to
  the shard that \<^verbatim>\<open>Chunk::link\<close> stores, a number standing for the pointer the code compares.
\<close>

datatype chunkVersion = ChunkVersion (epoch: "96 word") (stamp: "64 word")

record chunk =
  ch_ns :: string
  version :: chunkVersion
  lowerBound :: object
  upperBound :: object
  shardID :: string
  shard :: nat

subsection \<open>Version check at construction (\<^verbatim>\<open>Config::Config\<close>, the two last loops)\<close>

text \<open>
  After the tables are linked, the constructor walks over the chunks once with a map from (namespace, shard) to the
  version seen so far: a first chunk of a pair enters the map, a chunk whose epoch differs
  from the recorded one throws \<open>ShardConfigBroken\<close>, and a chunk with a greater stamp
  replaces the recorded version.  A second pass sets every chunk's version to the one
  recorded for its pair; \<open>versions.find(...)->second\<close> on a missing key would dereference
  the end iterator, which is the \<open>UndefinedBehaviour\<close> branch.
\<close>

definition group_key :: "chunk \<Rightarrow> string \<times> nat" where
  "group_key ch = (ch_ns ch, shard ch)"





definition max_stamp :: "chunk list \<Rightarrow> string \<Rightarrow> nat \<Rightarrow> 64 word" where
  "max_stamp chs ns sh =
     fold max (map (\<lambda>c. stamp (version c)) (filter (\<lambda>c. ch_ns c = ns \<and> shard c = sh) chs)) 0"

definition adopt :: "chunk list \<Rightarrow> chunk \<Rightarrow> chunk" where
  "adopt chs ch =
     ch\<lparr>version := ChunkVersion (epoch (version ch)) (max_stamp chs (ch_ns ch) (shard ch))\<rparr>"


section \<open>Backend selection by roundtrip (shard.cpp)\<close>

text \<open>
  A backend is known by its address and its measured roundtrip, a
  \<^verbatim>\<open>std::chrono::microseconds\<close>, that is a signed 64-bit count of microseconds; a backend
  that does not answer has the greatest such value.  \<open>localThreshold\<close> is an option, a signed
  64-bit count of milliseconds; adding it to a roundtrip multiplies it by 1000 and adds the
  two counts.  Both operations are done on 64-bit words and wrap around, as the compiled
  code does (signed overflow is undefined in C++); comparisons read the words as signed.
  \<open>r\<close> is the value returned by \<^verbatim>\<open>rand()\<close>.
\<close>

record backend =
  addr :: string
  roundtrip :: "64 word"

definition RAND_MAX :: nat where
  "RAND_MAX = 2147483647"

definition local_threshold :: "64 word \<Rightarrow> backend list \<Rightarrow> 64 word" where
  "local_threshold localThreshold candidates = roundtrip (hd candidates) + 1000 * localThreshold"

text \<open>The prefix the loop walks over, and the distance from \<^verbatim>\<open>candidates.begin()\<close> to
  \<^verbatim>\<open>it\<close> after the guard \<^verbatim>\<open>if (it == candidates.begin()) it = candidates.end()\<close>.\<close>

definition local_prefix :: "64 word \<Rightarrow> backend list \<Rightarrow> backend list" where
  "local_prefix threshold candidates =
     takeWhile (\<lambda>b. sint (roundtrip b) < sint threshold) candidates"

definition local_range :: "64 word \<Rightarrow> backend list \<Rightarrow> nat" where
  "local_range threshold candidates =
     (if length (local_prefix threshold candidates) = 0 then length candidates
      else length (local_prefix threshold candidates))"

text \<open>The index: the product is taken in 64 bits, the quotient is stored in an
  \<^verbatim>\<open>unsigned\<close>.  An index outside the vector is undefined behaviour.\<close>

definition local_index :: "nat \<Rightarrow> nat \<Rightarrow> nat" where
  "local_index r n = (r * n div (RAND_MAX + 1)) mod 2 ^ 32"

definition selectLocal ::
  "64 word \<Rightarrow> nat \<Rightarrow> (backend \<Rightarrow> bool) \<Rightarrow> backend list \<Rightarrow> error + backend option" where
  "selectLocal localThreshold r pred byrt =
     (let candidates = filter pred byrt in
      if candidates = [] then Inr None
      else
        let threshold = local_threshold localThreshold candidates;
            i = local_index r (local_range threshold candidates)
        in if i < length candidates then Inr (Some (candidates ! i))
           else Inl UndefinedBehaviour)"

text \<open>The range as the specification words it: the whole candidate set when the prefix
  holds the fastest candidate alone.\<close>

definition widened_range :: "64 word \<Rightarrow> backend list \<Rightarrow> nat" where
  "widened_range threshold candidates =
     (if length (local_prefix threshold candidates) \<le> 1 then length candidates
      else length (local_prefix threshold candidates))"

text \<open>Test data: a backend at 1 ms, one at 100 ms, and two that do not answer.\<close>

definition any_backend :: "backend \<Rightarrow> bool" where
  "any_backend b = True"

definition near_backend :: backend where
  "near_backend = \<lparr>addr = ''a:27017'', roundtrip = 1000\<rparr>"

definition far_backend :: backend where
  "far_backend = \<lparr>addr = ''b:27017'', roundtrip = 100000\<rparr>"

definition dead_backend :: backend where
  "dead_backend = \<lparr>addr = ''c:27017'', roundtrip = 9223372036854775807\<rparr>"

definition dead_backend' :: backend where
  "dead_backend' = \<lparr>addr = ''d:27017'', roundtrip = 9223372036854775807\<rparr>"

section \<open>Hashed sharding keys (config.cpp)\<close>

text \<open>
  \<^verbatim>\<open>hash\<close> feeds an MD5 context with a seed, a code for the type of the element and bytes
  for its value, and returns the first eight bytes of the digest.  The functions below
  give the bytes fed to the context; integers are stored least significant byte first.
\<close>

definition le_bytes :: "nat \<Rightarrow> int \<Rightarrow> 8 word list" where
  "le_bytes k x = map (\<lambda>i. word_of_int (x div 2 ^ (8 * i))) [0..<k]"

definition int32_bytes :: "32 word \<Rightarrow> 8 word list" where
  "int32_bytes w = le_bytes 4 (uint w)"

definition int64_bytes :: "64 word \<Rightarrow> 8 word list" where
  "int64_bytes w = le_bytes 8 (uint w)"

definition cstring_bytes :: "string \<Rightarrow> 8 word list" where
  "cstring_bytes s = map (\<lambda>c. of_nat (of_char c)) s @ [0]"

text \<open>\<^verbatim>\<open>hashType\<close>: the code of the type; all numbers share the code 10.\<close>

definition hashType :: "bson option \<Rightarrow> int" where
  "hashType elt =
     (case elt of
        None \<Rightarrow> 0
      | Some v \<Rightarrow>
          if v = BMinKey \<or> v = BMaxKey then type_id v
          else if v = BNull then 5
          else if isNumber v then 10
          else (case v of
                  BString _ \<Rightarrow> 15
                | BObject _ \<Rightarrow> 20
                | BArray _ \<Rightarrow> 25
                | BBinary _ \<Rightarrow> 30
                | BObjectID _ \<Rightarrow> 35
                | BBool _ \<Rightarrow> 40
                | BTime _ \<Rightarrow> 45
                | BTimestamp _ \<Rightarrow> 47
                | _ \<Rightarrow> - 1))"

definition hashType_bytes :: "bson option \<Rightarrow> 8 word list" where
  "hashType_bytes elt = int32_bytes (word_of_int (hashType elt))"

text \<open>
  The conversion of a 64-bit integer to \<^verbatim>\<open>double\<close> rounds to the nearest value with a
  53-bit significand, ties to even.
\<close>

fun bit_length :: "nat \<Rightarrow> nat" where
  "bit_length n = (if n = 0 then 0 else Suc (bit_length (n div 2)))"

declare bit_length.simps [simp del]

definition double_of_int :: "int \<Rightarrow> rat" where
  "double_of_int x =
     (let a = nat \<bar>x\<bar>;
          e = bit_length a - 53;
          q = a div 2 ^ e;
          r = a mod 2 ^ e;
          q' = (if 2 ^ e < 2 * r \<or> (2 * r = 2 ^ e \<and> odd q) then q + 1 else q)
      in of_int (sgn x * int (q' * 2 ^ e)))"

definition INT64_MIN :: int where
  "INT64_MIN = - (2 ^ 63)"

definition INT64_MAX :: int where
  "INT64_MAX = 2 ^ 63 - 1"

text \<open>The branch of \<^verbatim>\<open>hash\<close> for a double: the 64-bit integer that is hashed in its place.\<close>

definition hash_double :: "dbl \<Rightarrow> error + 64 word" where
  "hash_double v =
     (if v = NaN then Inr 0
      else if dbl_less v (Finite (double_of_int INT64_MIN)) then Inr (word_of_int INT64_MIN)
      else if dbl_less (Finite (double_of_int INT64_MAX)) v then Inr (word_of_int INT64_MAX)
      else bindE (double_to_integer INT64_MIN INT64_MAX v) (\<lambda>i. Inr (word_of_int i)))"

text \<open>The bytes of a value that is neither a document nor a number
  (\<^verbatim>\<open>valueData\<close>, \<^verbatim>\<open>valueSize\<close>).\<close>

definition value_bytes :: "bson \<Rightarrow> 8 word list" where
  "value_bytes v =
     (case v of
        BString s \<Rightarrow> int32_bytes (of_nat (length s + 1)) @ cstring_bytes s
      | BBinary bs \<Rightarrow> int32_bytes (of_nat (length bs)) @ [0] @ bs
      | BObjectID x \<Rightarrow> rev (le_bytes 12 (uint x))
      | BBool b \<Rightarrow> [if b then 1 else 0]
      | BTime t \<Rightarrow> int64_bytes t
      | BTimestamp t \<Rightarrow> int64_bytes t
      | _ \<Rightarrow> [])"

fun hash_value :: "bson \<Rightarrow> error + 8 word list"
  and hashRange :: "(string \<times> bson) list \<Rightarrow> error + 8 word list" where
  "hash_value (BObject es) = hashRange es"
| "hash_value (BArray es) = hashRange es"
| "hash_value (BDouble v) = bindE (hash_double v) (\<lambda>i. Inr (int64_bytes i))"
| "hash_value v =
     (if isNumber v then bindE (as_int64 v) (\<lambda>i. Inr (int64_bytes i))
      else Inr (value_bytes v))"
| "hashRange [] = Inr (int32_bytes 0)"
| "hashRange ((name, v) # es) =
     bindE (hash_value v) (\<lambda>b.
     bindE (hashRange es) (\<lambda>r.
       Inr (hashType_bytes (Some v) @ cstring_bytes name @ b @ r)))"

definition hash_input :: "bson option \<Rightarrow> error + 8 word list" where
  "hash_input elt =
     bindE (case elt of None \<Rightarrow> Inr [] | Some v \<Rightarrow> hash_value v) (\<lambda>b.
       Inr (int32_bytes 0 @ hashType_bytes elt @ b))"

text \<open>\<open>md5\<close> stands for the digest read as a \<^verbatim>\<open>size_t\<close>.\<close>

definition hash :: "(8 word list \<Rightarrow> 64 word) \<Rightarrow> bson option \<Rightarrow> error + 64 word" where
  "hash md5 elt = bindE (hash_input elt) (\<lambda>b. Inr (md5 b))"

section \<open>Datasources and reply batches (operations.h, session.cpp, cursor_map.h)\<close>

text \<open>
  \<^verbatim>\<open>DataSource\<close> is an abstract class: \<^verbatim>\<open>atEnd\<close>, \<^verbatim>\<open>get\<close> and \<^verbatim>\<open>doAdvance\<close> are virtual.  A
  datasource is carried here as its base fields (\<open>id_\<close>, \<open>pos_\<close>, \<open>closed_\<close>), its flags, and
  the documents it has still to yield, each with the message of the exception that
  advancing past it throws, if it does (a \<^verbatim>\<open>BackendDatasource\<close> asks its backend for more
  when its buffer is used up, and that exchange may fail).  A \<^verbatim>\<open>FixedDataSource\<close> holds
  one document and never throws; a \<^verbatim>\<open>NullDatasource\<close> holds none.
\<close>

record datasource =
  ds_id :: "64 word"
  ds_pos :: "64 word"
  ds_closed :: bool
  ds_flags :: "32 word"
  ds_items :: "(object \<times> string option) list"

definition CURSOR_NOT_FOUND :: "32 word" where
  "CURSOR_NOT_FOUND = 1"

definition QUERY_FAILURE :: "32 word" where
  "QUERY_FAILURE = 2"

text \<open>The constructor of \<^verbatim>\<open>DataSource\<close> draws the identifier from the process-wide counter.\<close>

definition new_datasource ::
  "64 word \<Rightarrow> 32 word \<Rightarrow> (object \<times> string option) list \<Rightarrow> datasource \<times> 64 word" where
  "new_datasource g_id fl items =
     (case generateID g_id of (i, g') \<Rightarrow>
        (\<lparr>ds_id = i, ds_pos = 0, ds_closed = False, ds_flags = fl, ds_items = items\<rparr>, g'))"

definition FixedDataSource :: "64 word \<Rightarrow> object \<Rightarrow> 32 word \<Rightarrow> datasource \<times> 64 word" where
  "FixedDataSource g_id obj fl = new_datasource g_id fl [(obj, None)]"

definition queryError :: "64 word \<Rightarrow> string \<Rightarrow> datasource \<times> 64 word" where
  "queryError g_id msg = FixedDataSource g_id [(''$err'', BString msg)] QUERY_FAILURE"

definition setId :: "64 word \<Rightarrow> datasource \<Rightarrow> datasource" where
  "setId i ds = ds\<lparr>ds_id := i\<rparr>"

definition atEnd :: "datasource \<Rightarrow> bool" where
  "atEnd ds = (ds_items ds = [])"

definition get_doc :: "datasource \<Rightarrow> object" where
  "get_doc ds = fst (hd (ds_items ds))"

text \<open>\<^verbatim>\<open>advance\<close>: nothing at the end; otherwise the position is incremented and
  \<^verbatim>\<open>doAdvance\<close> runs, which may throw.\<close>

definition advance :: "datasource \<Rightarrow> string + datasource" where
  "advance ds =
     (case ds_items ds of
        [] \<Rightarrow> Inr ds
      | (d, e) # rest \<Rightarrow>
          (case e of
             None \<Rightarrow> Inr (ds\<lparr>ds_pos := ds_pos ds + 1, ds_items := rest\<rparr>)
           | Some msg \<Rightarrow> Inl msg))"

definition close_ds :: "datasource \<Rightarrow> datasource" where
  "close_ds ds = ds\<lparr>ds_closed := True\<rparr>"

subsection \<open>Size of a document\<close>

text \<open>\<^verbatim>\<open>rawSize\<close> is the length of the encoded document: a length word, the elements (a
  type byte, the name with its terminator, the value) and a closing zero byte.\<close>

fun value_size :: "bson \<Rightarrow> nat"
  and elements_size :: "(string \<times> bson) list \<Rightarrow> nat" where
  "value_size (BDouble _) = 8"
| "value_size (BString s) = 4 + (length s + 1)"
| "value_size (BObject es) = 5 + elements_size es"
| "value_size (BArray es) = 5 + elements_size es"
| "value_size (BBinary bs) = 4 + 1 + length bs"
| "value_size (BObjectID _) = 12"
| "value_size (BBool _) = 1"
| "value_size (BTime _) = 8"
| "value_size BNull = 0"
| "value_size (BInt32 _) = 4"
| "value_size (BTimestamp _) = 8"
| "value_size (BInt64 _) = 8"
| "value_size BMinKey = 0"
| "value_size BMaxKey = 0"
| "elements_size [] = 0"
| "elements_size ((name, v) # es) = 1 + (length name + 1) + value_size v + elements_size es"

definition rawSize :: "object \<Rightarrow> nat" where
  "rawSize obj = 5 + elements_size obj"

subsection \<open>\<^verbatim>\<open>Session::feed\<close>\<close>

text \<open>
  The reply header is 36 bytes.  \<open>count\<close> is the value of the \<^verbatim>\<open>int32_t\<close> argument (the
  absolute value of the least \<^verbatim>\<open>int32_t\<close> is undefined in C; the model takes the
  mathematical one).  \<open>batchSize\<close> is the debugging option of that name, by default
  \<open>SIZE_INF\<close>, the constant \<^verbatim>\<open>INF\<close> of the code.
\<close>

record reply =
  r_size :: "32 word"
  r_responseTo :: "32 word"
  r_flags :: "32 word"
  r_cursorID :: "64 word"
  r_startingFrom :: "32 word"
  r_numberReturned :: "32 word"
  r_documents :: "object list"

definition SIZE_INF :: nat where
  "SIZE_INF = 2 ^ 64 - 1"

definition MAX_SIZE :: nat where
  "MAX_SIZE = 16 * 1024 * 1024"

definition header_size :: nat where
  "header_size = 36"

text \<open>The variables of the loop: the current datasource, whether \<open>err\<close> holds it, the
  counter of identifiers, the flags of the header, the documents and the size of the
  reply so far, and the two counters.\<close>

record feed_state =
  fs_datasource :: datasource
  fs_err :: bool
  fs_gid :: "64 word"
  fs_flags :: "32 word"
  fs_documents :: "object list"
  fs_size :: nat
  fs_cnt :: nat
  fs_retcnt :: nat

datatype 'a flow = Continue 'a | Break 'a

definition feed_cond :: "feed_state \<Rightarrow> bool" where
  "feed_cond s =
     (\<not> atEnd (fs_datasource s)
      \<and> fs_size s + rawSize (get_doc (fs_datasource s)) < MAX_SIZE
      \<and> fs_cnt s \<noteq> 0)"

definition feed_body :: "feed_state \<Rightarrow> feed_state flow" where
  "feed_body s =
     (let obj = get_doc (fs_datasource s) in
      case advance (fs_datasource s) of
        Inl what \<Rightarrow>
          (case queryError (fs_gid s) what of (err, g') \<Rightarrow>
             let err = setId (ds_id (fs_datasource s)) err;
                 s = s\<lparr>fs_datasource := err, fs_err := True, fs_gid := g'\<rparr>
             in if fs_retcnt s \<noteq> 0 then Break s
                else Continue (s\<lparr>fs_flags := fs_flags s OR ds_flags err\<rparr>))
      | Inr ds \<Rightarrow>
          Continue (s\<lparr>fs_datasource := ds,
                      fs_documents := fs_documents s @ [obj],
                      fs_size := fs_size s + rawSize obj,
                      fs_retcnt := fs_retcnt s + 1,
                      fs_cnt := (if fs_cnt s \<noteq> SIZE_INF then fs_cnt s - 1 else fs_cnt s)\<rparr>))"

definition feed_weight :: "feed_state \<Rightarrow> nat" where
  "feed_weight s =
     sum_list (map (\<lambda>(d, e). case e of None \<Rightarrow> 1 | Some _ \<Rightarrow> 2) (ds_items (fs_datasource s)))"

declare feed_weight_def [simp]

function feed_loop :: "feed_state \<Rightarrow> feed_state" where
  "feed_loop s =
     (if feed_cond s
      then (case feed_body s of Continue s' \<Rightarrow> feed_loop s' | Break s' \<Rightarrow> s')
      else s)"
  by pat_completeness auto

termination
proof (relation "measure feed_weight")
  show "wf (measure feed_weight)" by simp
next
  fix s s' assume "feed_cond s" "feed_body s = Continue s'"
  then show "(s', s) \<in> measure feed_weight"
    by (cases "ds_items (fs_datasource s)")
       (auto simp: feed_cond_def feed_body_def atEnd_def advance_def Let_def
          queryError_def FixedDataSource_def new_datasource_def generateID_def setId_def
          split: option.splits prod.splits if_splits)
qed

declare feed_loop.simps [simp del]
declare feed_weight_def [simp del]

text \<open>
  \<open>initial_cnt\<close> is the number of documents the batch may hold.  The result of \<^verbatim>\<open>feed\<close>: the reply written to the client, the datasource returned
  (none for a null pointer), whether it is another one than the one given (the caller
  compares the pointers), and the counter of identifiers.
\<close>

definition initial_cnt :: "int \<Rightarrow> nat \<Rightarrow> nat" where
  "initial_cnt count batchSize =
     (let cnt = nat \<bar>count\<bar>;
          cnt = (if cnt = 0 then SIZE_INF else cnt)
      in min cnt batchSize)"

record feed_result =
  fr_reply :: reply
  fr_datasource :: "datasource option"
  fr_replaced :: bool
  fr_gid :: "64 word"

definition feed ::
  "64 word \<Rightarrow> nat \<Rightarrow> 32 word \<Rightarrow> datasource option \<Rightarrow> int \<Rightarrow> feed_result" where
  "feed g_id batchSize reqID datasource count =
     (case datasource of
        None \<Rightarrow>
          \<lparr>fr_reply = \<lparr>r_size = of_nat header_size, r_responseTo = reqID,
                        r_flags = CURSOR_NOT_FOUND, r_cursorID = 0, r_startingFrom = 0,
                        r_numberReturned = 0, r_documents = []\<rparr>,
           fr_datasource = None, fr_replaced = False, fr_gid = g_id\<rparr>
      | Some ds \<Rightarrow>
          let autoClose = (count = 1 \<or> count < 0);
              cnt = initial_cnt count batchSize;
              s = feed_loop \<lparr>fs_datasource = ds, fs_err = False, fs_gid = g_id,
                             fs_flags = ds_flags ds, fs_documents = [],
                             fs_size = header_size, fs_cnt = cnt, fs_retcnt = 0\<rparr>;
              retained = (\<not> autoClose \<and> \<not> atEnd (fs_datasource s))
          in \<lparr>fr_reply = \<lparr>r_size = of_nat (fs_size s), r_responseTo = reqID,
                           r_flags = fs_flags s,
                           r_cursorID = (if retained then ds_id (fs_datasource s) else 0),
                           r_startingFrom = ucast (ds_pos ds),
                           r_numberReturned = of_nat (fs_retcnt s),
                           r_documents = fs_documents s\<rparr>,
              fr_datasource =
                Some (if retained then fs_datasource s else close_ds (fs_datasource s)),
              fr_replaced = fs_err s, fr_gid = fs_gid s\<rparr>)"

subsection \<open>The cursor map and the handlers of \<^verbatim>\<open>Session::run\<close>\<close>

text \<open>
  \<^verbatim>\<open>CursorMap\<close> is a map from identifiers to the datasources it owns.  The handlers
  mutate a datasource of the map in place through a pointer; here the datasource that
  \<^verbatim>\<open>feed\<close> returns is stored back under the key it was found at.
\<close>

definition cursor_insert ::
  "datasource \<Rightarrow> (64 word \<Rightarrow> datasource option) \<Rightarrow> 64 word \<Rightarrow> datasource option" where
  "cursor_insert ds m = m(ds_id ds \<mapsto> ds)"

definition cursor_erase ::
  "64 word \<Rightarrow> (64 word \<Rightarrow> datasource option) \<Rightarrow> 64 word \<Rightarrow> datasource option" where
  "cursor_erase i m = m(i := None)"

definition cursor_find :: "64 word \<Rightarrow> (64 word \<Rightarrow> datasource option) \<Rightarrow> datasource option" where
  "cursor_find i m =
     (case m i of None \<Rightarrow> None | Some ds \<Rightarrow> if ds_id ds = i then Some ds else None)"

record session =
  s_gid :: "64 word"
  cursors :: "64 word \<Rightarrow> datasource option"

definition new_session :: session where
  "new_session = \<lparr>s_gid = 0, cursors = Map.empty\<rparr>"

text \<open>\<^verbatim>\<open>QUERY\<close>, for a query whose datasource was built without an exception: the
  datasource is constructed, fed to the client, and kept when it is not closed.\<close>

definition handle_query ::
  "nat \<Rightarrow> 32 word \<Rightarrow> 32 word \<Rightarrow> (object \<times> string option) list \<Rightarrow> int \<Rightarrow> session
     \<Rightarrow> reply \<times> session" where
  "handle_query batchSize reqID fl items nToReturn st =
     (case new_datasource (s_gid st) fl items of (ds, g) \<Rightarrow>
        let r = feed g batchSize reqID (Some ds) nToReturn in
        (fr_reply r,
         st\<lparr>s_gid := fr_gid r,
            cursors := (case fr_datasource r of
                          None \<Rightarrow> cursors st
                        | Some d \<Rightarrow> if ds_closed d then cursors st
                                    else cursor_insert d (cursors st))\<rparr>))"

definition handle_get_more ::
  "nat \<Rightarrow> 32 word \<Rightarrow> 64 word \<Rightarrow> int \<Rightarrow> session \<Rightarrow> reply \<times> session" where
  "handle_get_more batchSize reqID cursorID nToReturn st =
     (let oldds = cursor_find cursorID (cursors st);
          r = feed (s_gid st) batchSize reqID oldds nToReturn
      in (fr_reply r,
          st\<lparr>s_gid := fr_gid r,
             cursors := (case fr_datasource r of
                           None \<Rightarrow> cursors st
                         | Some newds \<Rightarrow>
                             if ds_closed newds then cursor_erase (ds_id newds) (cursors st)
                             else if fr_replaced r then cursor_insert newds (cursors st)
                             else (cursors st)(cursorID \<mapsto> newds))\<rparr>))"

text \<open>Test data: a datasource of two documents whose second fetch fails.\<close>

definition failing_items :: "(object \<times> string option) list" where
  "failing_items = [([(''a'', BInt32 1)], None), ([(''a'', BInt32 2)], Some ''boom'')]"

text \<open>A query for at most two documents that closes its cursor (\<open>nToReturn = -2\<close>) on that
  datasource, followed by a request for more on the identifier of the datasource; and the
  same with a cursor that is kept (\<open>nToReturn = 2\<close>).\<close>

definition closing_query :: "reply \<times> session" where
  "closing_query = handle_query SIZE_INF 7 0 failing_items (- 2) new_session"

definition closing_get_more :: "reply \<times> session" where
  "closing_get_more = handle_get_more SIZE_INF 8 1 0 (snd closing_query)"

definition keeping_query :: "reply \<times> session" where
  "keeping_query = handle_query SIZE_INF 7 0 failing_items 2 new_session"

definition keeping_get_more :: "reply \<times> session" where
  "keeping_get_more = handle_get_more SIZE_INF 8 1 0 (snd keeping_query)"

text \<open>The state of the loop after the documents \<open>docs\<close> have been fetched and put into the
  reply, \<open>rest\<close> being what the datasource has still to yield.\<close>

definition emitted :: "object list \<Rightarrow> (object \<times> string option) list \<Rightarrow> feed_state \<Rightarrow> feed_state" where
  "emitted docs rest s =
     s\<lparr>fs_datasource := (fs_datasource s)\<lparr>ds_pos := ds_pos (fs_datasource s) + of_nat (length docs),
                                            ds_items := rest\<rparr>,
       fs_documents := fs_documents s @ docs,
       fs_size := fs_size s + sum_list (map rawSize docs),
       fs_retcnt := fs_retcnt s + length docs,
       fs_cnt := (if fs_cnt s \<noteq> SIZE_INF then fs_cnt s - length docs else fs_cnt s)\<rparr>"


text \<open>The datasource that \<^verbatim>\<open>feed\<close> makes of an exception: a \<^verbatim>\<open>FixedDataSource\<close> with the
  document \<open>{$err: msg}\<close> and the flag of a failed query, given the identifier \<open>i\<close>.\<close>

definition error_document :: "string \<Rightarrow> object" where
  "error_document msg = [(''$err'', BString msg)]"

definition error_datasource :: "64 word \<Rightarrow> string \<Rightarrow> datasource" where
  "error_datasource i msg =
     \<lparr>ds_id = i, ds_pos = 0, ds_closed = False, ds_flags = QUERY_FAILURE,
      ds_items = [(error_document msg, None)]\<rparr>"

text \<open>Test data: the first datasource of a process, built on \<open>failing_items\<close>.\<close>

definition first_datasource :: datasource where
  "first_datasource = fst (new_datasource 0 0 failing_items)"

section \<open>Routing by the sharding key (config.h, config.cpp, sorted_vector.h)\<close>

text \<open>
  A configuration holds the shard of the configuration servers and four tables, each a
  \<^verbatim>\<open>SortedVector\<close>: the shards by name, the chunks, sorted by namespace and lower bound,
  the sharded collections and the databases, sorted by name.  Shards are numbers standing
  for the pointers the code compares and orders.  A database names its primary shard
  (\<open>primaryID\<close>); \<open>primaryShard\<close> is the pointer that \<^verbatim>\<open>Database::link\<close> stores.
\<close>

record collection =
  coll_ns :: string
  isDropped :: bool
  shardingKey :: object

record database =
  db_name :: string
  isPartitioned :: bool
  primaryID :: string
  primaryShard :: nat

record config =
  configShard :: nat
  shard_table :: "(string \<times> nat) list"
  chunks :: "chunk list"
  collections :: "collection list"
  databases :: "database list"

record namespace =
  ns_db :: string
  ns_coll :: string

definition ns_name :: "namespace \<Rightarrow> string" where
  "ns_name n = ns_db n @ ''.'' @ ns_coll n"

text \<open>
  \<^verbatim>\<open>findPtr\<close> takes the first entry whose key is not less than the one sought
  (\<^verbatim>\<open>lower_bound\<close>) and returns it when its key is the one sought.  The chunks of a
  collection are the \<^verbatim>\<open>equal_range\<close> of its name in the table of chunks.
\<close>

definition findPtr :: "('a \<Rightarrow> string) \<Rightarrow> string \<Rightarrow> 'a list \<Rightarrow> 'a option" where
  "findPtr key k v =
     (case dropWhile (\<lambda>x. key x < k) v of
        [] \<Rightarrow> None
      | x # _ \<Rightarrow> if key x = k then Some x else None)"

definition collection_of :: "config \<Rightarrow> namespace \<Rightarrow> collection option" where
  "collection_of cfg ns = findPtr coll_ns (ns_name ns) (collections cfg)"

definition database_of :: "config \<Rightarrow> string \<Rightarrow> database option" where
  "database_of cfg name = findPtr db_name name (databases cfg)"

definition chunk_range :: "config \<Rightarrow> string \<Rightarrow> chunk list" where
  "chunk_range cfg ns =
     takeWhile (\<lambda>c. \<not> ns < ch_ns c) (dropWhile (\<lambda>c. ch_ns c < ns) (chunks cfg))"

subsection \<open>\<^verbatim>\<open>Config::shards\<close>\<close>

text \<open>
  The shards of a namespace are collected in a \<^verbatim>\<open>std::map\<close> ordered by shard, kept here
  as a list sorted by shard.  A shard met again must come with the version recorded for
  it; the code asserts this.  A default \<^verbatim>\<open>ChunkVersion\<close> is \<open>zero_version\<close>.
\<close>

definition zero_version :: chunkVersion where
  "zero_version = ChunkVersion 0 0"

fun shards_map ::
  "chunk list \<Rightarrow> (nat \<times> chunkVersion) list \<Rightarrow> error + (nat \<times> chunkVersion) list" where
  "shards_map [] m = Inr m"
| "shards_map (c # cs) m =
     (case map_of m (shard c) of
        None \<Rightarrow> shards_map cs (insort_key fst (shard c, version c) m)
      | Some v \<Rightarrow> if v = version c then shards_map cs m else Inl AssertionFailed)"

definition shards :: "config \<Rightarrow> namespace \<Rightarrow> error + (nat \<times> chunkVersion) list" where
  "shards cfg ns =
     (if ns_db ns = ''config'' then Inr [(configShard cfg, zero_version)]
      else case collection_of cfg ns of
             Some c \<Rightarrow> shards_map (chunk_range cfg (coll_ns c)) []
           | None \<Rightarrow>
               (case database_of cfg (ns_db ns) of
                  Some db \<Rightarrow> Inr [(primaryShard db, zero_version)]
                | None \<Rightarrow> Inr []))"

subsection \<open>\<^verbatim>\<open>Config::find\<close>\<close>

definition hashedField :: "collection \<Rightarrow> string" where
  "hashedField coll =
     (case shardingKey coll of
        [] \<Rightarrow> []
      | (name, v) # rest \<Rightarrow>
          if rest = [] \<and> v = BString ''hashed'' then name else [])"

text \<open>Whether an element of the criteria is a document whose first field is an
  operator, and the name and the value of that first field.\<close>

definition is_operator :: "bson \<Rightarrow> bool" where
  "is_operator el =
     (case el of
        BObject es \<Rightarrow>
          (case es of
             [] \<Rightarrow> False
           | (n, _) # _ \<Rightarrow> (case n of [] \<Rightarrow> False | c # _ \<Rightarrow> c = CHR ''$''))
      | _ \<Rightarrow> False)"

definition front_name :: "bson \<Rightarrow> string" where
  "front_name el = (case el of BObject ((n, _) # _) \<Rightarrow> n | _ \<Rightarrow> [])"

definition front_array :: "bson \<Rightarrow> error + (string \<times> bson) list" where
  "front_array el =
     (case el of
        BObject ((_, BArray vs) # _) \<Rightarrow> Inr vs
      | _ \<Rightarrow> Inl TypeMismatch)"

text \<open>The variables of the loop over the sharding key, and its two outcomes: the
  criteria do not fix the key (the code returns \<open>shards(ns)\<close>), or they do.\<close>

record key_parts =
  vectorName :: string
  vectorValues :: "(string \<times> bson) list"
  kp_head :: object
  kp_tail :: object

datatype scan = Uncertain | Certain key_parts

fun scan_key :: "object \<Rightarrow> object \<Rightarrow> key_parts \<Rightarrow> error + scan" where
  "scan_key [] criteria p = Inr (Certain p)"
| "scan_key (kel # ks) criteria p =
     (case lookup criteria (fst kel) of
        None \<Rightarrow> Inr Uncertain
      | Some el \<Rightarrow>
          if \<not> is_operator el then
            (if vectorName p = []
             then scan_key ks criteria (p\<lparr>kp_head := kp_head p @ [(fst kel, el)]\<rparr>)
             else scan_key ks criteria (p\<lparr>kp_tail := kp_tail p @ [(fst kel, el)]\<rparr>))
          else if front_name el = ''$in'' then
            (if vectorName p = []
             then bindE (front_array el) (\<lambda>vs.
                    scan_key ks criteria (p\<lparr>vectorName := fst kel, vectorValues := vs\<rparr>))
             else Inr Uncertain)
          else Inr Uncertain)"

definition no_parts :: key_parts where
  "no_parts = \<lparr>vectorName = [], vectorValues = [], kp_head = [], kp_tail = []\<rparr>"

text \<open>
  \<^verbatim>\<open>doFind\<close>: the key is replaced by its hash for a hashed collection; the chunk is the
  one before the \<^verbatim>\<open>upper_bound\<close> of (namespace, key) in the table of chunks, and it must
  contain the key.  Both \<^verbatim>\<open>ASSERT\<close>s throw.
\<close>

definition pair_less :: "string \<times> object \<Rightarrow> string \<times> object \<Rightarrow> bool" where
  "pair_less a b = (fst a < fst b \<or> (\<not> fst b < fst a \<and> cmp_objects Less (snd a) (snd b)))"

definition chunk_key :: "chunk \<Rightarrow> string \<times> object" where
  "chunk_key c = (ch_ns c, lowerBound c)"

definition upper_bound :: "string \<times> object \<Rightarrow> chunk list \<Rightarrow> nat" where
  "upper_bound k cs = length (takeWhile (\<lambda>c. \<not> pair_less k (chunk_key c)) cs)"

definition contains :: "chunk \<Rightarrow> object \<Rightarrow> bool" where
  "contains c key =
     ((lowerBound c = [] \<or> cmp_objects GreaterEqual key (lowerBound c))
      \<and> (upperBound c = [] \<or> cmp_objects Less key (upperBound c)))"

definition routing_key :: "(8 word list \<Rightarrow> 64 word) \<Rightarrow> string \<Rightarrow> object \<Rightarrow> error + object" where
  "routing_key md5 hf key =
     (if hf = [] then Inr key
      else bindE (hash md5 (lookup key hf)) (\<lambda>h. Inr [(hf, BInt64 h)]))"

definition doFind_chunk ::
  "(8 word list \<Rightarrow> 64 word) \<Rightarrow> config \<Rightarrow> namespace \<Rightarrow> string \<Rightarrow> object \<Rightarrow> error + chunk" where
  "doFind_chunk md5 cfg ns hf key =
     bindE (routing_key md5 hf key) (\<lambda>k.
       let i = upper_bound (ns_name ns, k) (chunks cfg) in
       if i = 0 then Inl AssertionFailed
       else let c = chunks cfg ! (i - 1) in
            if \<not> contains c k then Inl AssertionFailed else Inr c)"

definition doFind ::
  "(8 word list \<Rightarrow> 64 word) \<Rightarrow> config \<Rightarrow> namespace \<Rightarrow> string \<Rightarrow> object
     \<Rightarrow> error + nat \<times> chunkVersion" where
  "doFind md5 cfg ns hf key =
     bindE (doFind_chunk md5 cfg ns hf key) (\<lambda>c. Inr (shard c, version c))"

text \<open>Insertion into the \<^verbatim>\<open>std::set\<close> ordered by shard: an element whose shard is
  present is not inserted.\<close>

definition set_insert :: "nat \<times> chunkVersion \<Rightarrow> (nat \<times> chunkVersion) list \<Rightarrow> (nat \<times> chunkVersion) list" where
  "set_insert x s = (if fst x \<in> fst ` set s then s else insort_key fst x s)"

definition vector_key :: "key_parts \<Rightarrow> bson \<Rightarrow> object" where
  "vector_key p v = kp_head p @ [(vectorName p, v)] @ kp_tail p"

fun find_vector ::
  "(object \<Rightarrow> error + nat \<times> chunkVersion) \<Rightarrow> key_parts \<Rightarrow> (string \<times> bson) list
     \<Rightarrow> (nat \<times> chunkVersion) list \<Rightarrow> error + (nat \<times> chunkVersion) list" where
  "find_vector f p [] ret = Inr ret"
| "find_vector f p (v # vs) ret =
     bindE (f (vector_key p (snd v))) (\<lambda>x. find_vector f p vs (set_insert x ret))"

definition config_find ::
  "(8 word list \<Rightarrow> 64 word) \<Rightarrow> config \<Rightarrow> namespace \<Rightarrow> object
     \<Rightarrow> error + (nat \<times> chunkVersion) list" where
  "config_find md5 cfg ns criteria =
     (case collection_of cfg ns of
        None \<Rightarrow> shards cfg ns
      | Some coll \<Rightarrow>
          bindE (scan_key (shardingKey coll) criteria no_parts) (\<lambda>r.
            case r of
              Uncertain \<Rightarrow> shards cfg ns
            | Certain p \<Rightarrow>
                if vectorName p = []
                then bindE (doFind md5 cfg ns (hashedField coll) (kp_head p)) (\<lambda>x. Inr [x])
                else find_vector (doFind md5 cfg ns (hashedField coll)) p (vectorValues p) []))"

subsection \<open>Keys looked up and their cover\<close>

text \<open>
  The keys \<^verbatim>\<open>doFind\<close> is called with for given criteria, and the condition that the
  collection has chunks and that none of the keys looked up, once hashed, is below the
  lower bound of the first of them.
\<close>

definition find_keys :: "collection \<Rightarrow> object \<Rightarrow> object list" where
  "find_keys coll criteria =
     (case scan_key (shardingKey coll) criteria no_parts of
        Inr (Certain p) \<Rightarrow>
          if vectorName p = [] then [kp_head p]
          else map (\<lambda>v. vector_key p (snd v)) (vectorValues p)
      | _ \<Rightarrow> [])"

definition key_covered :: "(8 word list \<Rightarrow> 64 word) \<Rightarrow> string \<Rightarrow> chunk \<Rightarrow> object \<Rightarrow> bool" where
  "key_covered md5 hf c0 key =
     (case routing_key md5 hf key of
        Inl _ \<Rightarrow> True
      | Inr k \<Rightarrow> \<not> cmp_objects Less k (lowerBound c0))"

definition covered :: "(8 word list \<Rightarrow> 64 word) \<Rightarrow> config \<Rightarrow> namespace \<Rightarrow> object \<Rightarrow> bool" where
  "covered md5 cfg ns criteria =
     (case collection_of cfg ns of
        None \<Rightarrow> True
      | Some coll \<Rightarrow>
          (case chunk_range cfg (coll_ns coll) of
             [] \<Rightarrow> find_keys coll criteria = []
           | c0 # _ \<Rightarrow> list_all (key_covered md5 (hashedField coll) c0) (find_keys coll criteria)))"

text \<open>Test data: a configuration with the collections \<open>db.a\<close>, of one chunk on shard 1,
  and \<open>db.b\<close>, of no chunk, both sharded by \<open>x\<close>; and a digest for collections that are
  not hashed.\<close>

definition one_chunk_config :: config where
  "one_chunk_config =
     \<lparr>configShard = 9,
      shard_table = [(''s0'', 0), (''s1'', 1)],
      chunks = [\<lparr>ch_ns = ''db.a'', version = ChunkVersion 7 1, lowerBound = [],
                 upperBound = [], shardID = ''s1'', shard = 1\<rparr>],
      collections = [\<lparr>coll_ns = ''db.a'', isDropped = False, shardingKey = [(''x'', BInt32 1)]\<rparr>,
                     \<lparr>coll_ns = ''db.b'', isDropped = False, shardingKey = [(''x'', BInt32 1)]\<rparr>],
      databases = [\<lparr>db_name = ''db'', isPartitioned = True, primaryID = ''s0'',
                    primaryShard = 0\<rparr>]\<rparr>"

definition db_a :: namespace where
  "db_a = \<lparr>ns_db = ''db'', ns_coll = ''a''\<rparr>"

definition db_b :: namespace where
  "db_b = \<lparr>ns_db = ''db'', ns_coll = ''b''\<rparr>"

definition no_md5 :: "8 word list \<Rightarrow> 64 word" where
  "no_md5 bytes = 0"

text \<open>A configuration with a sharded collection of the database \<open>config\<close>, whose chunk
  is on shard 1.\<close>

definition config_db_config :: config where
  "config_db_config =
     \<lparr>configShard = 9,
      shard_table = [(''s1'', 1)],
      chunks = [\<lparr>ch_ns = ''config.c'', version = ChunkVersion 7 1, lowerBound = [],
                 upperBound = [], shardID = ''s1'', shard = 1\<rparr>],
      collections = [\<lparr>coll_ns = ''config.c'', isDropped = False,
                      shardingKey = [(''x'', BInt32 1)]\<rparr>],
      databases = []\<rparr>"

definition config_c :: namespace where
  "config_c = \<lparr>ns_db = ''config'', ns_coll = ''c''\<rparr>"

section \<open>Construction of a configuration (config.cpp, \<^verbatim>\<open>Config::Config\<close>)\<close>











section \<open>A session as a sequence of requests (session.cpp)\<close>

text \<open>
  \<^verbatim>\<open>KILL_CURSORS\<close>: each cursor of the message that is found is closed and erased.
\<close>

fun handle_kill_cursors :: "64 word list \<Rightarrow> session \<Rightarrow> session" where
  "handle_kill_cursors [] st = st"
| "handle_kill_cursors (cursorID # rest) st =
     handle_kill_cursors rest
       (case cursor_find cursorID (cursors st) of
          None \<Rightarrow> st
        | Some ds \<Rightarrow> st\<lparr>cursors := cursor_erase (ds_id (close_ds ds)) (cursors st)\<rparr>)"

text \<open>
  The requests of \<^verbatim>\<open>Session::run\<close> that touch the cursors, and a step that stands for
  the datasources constructed elsewhere in the process between two of them (by another
  session, or inside \<^verbatim>\<open>operations::query\<close>, which builds one datasource for each shard
  under the one it returns): the counter of identifiers is static and shared by all of
  them.  \<open>constructions\<close> bounds the number of identifiers a request draws.
\<close>

datatype request =
    Query "32 word" "32 word" "(object \<times> string option) list" int
  | GetMore "32 word" "64 word" int
  | KillCursors "64 word list"
  | Constructed nat

definition session_step :: "nat \<Rightarrow> request \<Rightarrow> session \<Rightarrow> reply option \<times> session" where
  "session_step batchSize req st =
     (case req of
        Query reqID fl items nToReturn \<Rightarrow>
          (case handle_query batchSize reqID fl items nToReturn st of
             (r, st') \<Rightarrow> (Some r, st'))
      | GetMore reqID cursorID nToReturn \<Rightarrow>
          (case handle_get_more batchSize reqID cursorID nToReturn st of
             (r, st') \<Rightarrow> (Some r, st'))
      | KillCursors ids \<Rightarrow> (None, handle_kill_cursors ids st)
      | Constructed k \<Rightarrow> (None, st\<lparr>s_gid := snd (generateIDs k (s_gid st))\<rparr>))"

fun session_run :: "nat \<Rightarrow> request list \<Rightarrow> session \<Rightarrow> session" where
  "session_run batchSize [] st = st"
| "session_run batchSize (req # reqs) st =
     session_run batchSize reqs (snd (session_step batchSize req st))"

fun constructions :: "request \<Rightarrow> nat" where
  "constructions (Query reqID fl items nToReturn) = 2"
| "constructions (GetMore reqID cursorID nToReturn) = 1"
| "constructions (KillCursors ids) = 0"
| "constructions (Constructed k) = k"

text \<open>What is said of the cursors a session keeps: each is stored under its own
  identifier, which is not zero and was drawn from the counter, and is open.\<close>

definition cursors_ok :: "session \<Rightarrow> bool" where
  "cursors_ok st \<longleftrightarrow>
     (\<forall>i ds. cursors st i = Some ds \<longrightarrow>
        ds_id ds = i \<and> i \<noteq> 0 \<and> \<not> ds_closed ds \<and> unat i \<le> unat (s_gid st))"

text \<open>What is said of one request, served from the state \<open>st\<close> with the reply \<open>r\<close> and
  the state \<open>st'\<close> after it.\<close>

definition step_ok :: "request \<Rightarrow> session \<Rightarrow> reply option \<Rightarrow> session \<Rightarrow> bool" where
  "step_ok req st r st' \<longleftrightarrow>
     (\<forall>rep. r = Some rep \<and> r_cursorID rep \<noteq> 0 \<longrightarrow>
        (\<exists>ds. cursors st' (r_cursorID rep) = Some ds \<and> ds_id ds = r_cursorID rep
              \<and> \<not> ds_closed ds)
        \<and> (\<forall>j. j \<noteq> r_cursorID rep \<longrightarrow> cursors st' j = cursors st j)
        \<and> (case req of
              Query reqID flags docs count \<Rightarrow>
                cursors st (r_cursorID rep) = None \<and> r_cursorID rep = s_gid st + 1
            | GetMore reqID cursorID count \<Rightarrow>
                r_cursorID rep = cursorID \<and> cursors st cursorID \<noteq> None
            | _ \<Rightarrow> True))"

text \<open>Test data: two queries, each kept open on a datasource whose second fetch fails.\<close>

definition first_query :: request where
  "first_query = Query 7 0 failing_items 2"

definition second_query :: request where
  "second_query = Query 9 0 failing_items 2"

section \<open>Properties\<close>

subsection \<open>Connection pools\<close>

lemma pools_bounded_pop: "pools_bounded n e \<Longrightarrow> pools_bounded n (snd (endpoint_pop p e))"
  by (cases p) (auto simp: pools_bounded_def endpoint_pop_def pool_of_def set_pool_def)

lemma pools_bounded_get: "pools_bounded n e \<Longrightarrow> pools_bounded n (snd (endpoint_get p e))"
  by (cases p) (auto simp: pools_bounded_def endpoint_get_def endpoint_pop_def pool_of_def set_pool_def)

lemma pools_bounded_flush: "pools_bounded n (endpoint_flush e)"
  by (simp add: pools_bounded_def endpoint_flush_def)

lemma pools_bounded_release: "pools_bounded n e \<Longrightarrow> pools_bounded n (endpoint_release n c e)"
  by (cases c) (auto simp: pools_bounded_def endpoint_release_def pool_of_def set_pool_def Let_def)

lemma pools_bounded_step: "pools_bounded n e \<Longrightarrow> pools_bounded n (endpoint_step n e x)"
  by (cases x) (simp_all add: pools_bounded_pop pools_bounded_get pools_bounded_flush
      pools_bounded_release)

lemma pools_bounded_run: "pools_bounded n e \<Longrightarrow> pools_bounded n (endpoint_run n ops e)"
  unfolding endpoint_run_def
  by (induction ops arbitrary: e) (simp_all add: pools_bounded_step)

text \<open>
  Claim C8.  An endpoint keeps two pools, \<open>conns\<close> for any use and \<open>primaries\<close> for the
  primary.  \<^verbatim>\<open>release\<close> of a connection appends it to the pool named by its \<open>isPrimary\<close>
  flag when that pool holds fewer than \<open>connPoolSize\<close> connections, and otherwise leaves
  both pools as they are, the connection being dropped; the other pool is never touched,
  and releasing the empty connection changes nothing.  \<^verbatim>\<open>pop\<close> takes the last connection
  of a pool, \<^verbatim>\<open>get\<close> takes the last connection of a pool or makes a new one flagged with
  the pool, \<^verbatim>\<open>flush\<close> empties both pools.  Starting from a new endpoint, after any
  sequence of pop, get, flush and release operations neither pool holds more than
  \<open>connPoolSize\<close> connections.
\<close>

theorem endpoint_pools_never_exceed_connPoolSize:
  "conns (endpoint_release n (Some c) e)
     = (if \<not> isPrimary c \<and> length (conns e) < n then conns e @ [c] else conns e)
   \<and> primaries (endpoint_release n (Some c) e)
     = (if isPrimary c \<and> length (primaries e) < n then primaries e @ [c] else primaries e)
   \<and> fresh (endpoint_release n (Some c) e) = fresh e
   \<and> endpoint_release n None e = e
   \<and> endpoint_pop AnyPool e
     = (if conns e = [] then (None, e) else (Some (last (conns e)), e\<lparr>conns := butlast (conns e)\<rparr>))
   \<and> endpoint_pop PrimaryPool e
     = (if primaries e = [] then (None, e)
        else (Some (last (primaries e)), e\<lparr>primaries := butlast (primaries e)\<rparr>))
   \<and> getAny e
     = (if conns e = [] then (\<lparr>conn_no = fresh e, isPrimary = False\<rparr>, e\<lparr>fresh := Suc (fresh e)\<rparr>)
        else (last (conns e), e\<lparr>conns := butlast (conns e)\<rparr>))
   \<and> getPrimary e
     = (if primaries e = []
        then (\<lparr>conn_no = fresh e, isPrimary = True\<rparr>, e\<lparr>fresh := Suc (fresh e)\<rparr>)
        else (last (primaries e), e\<lparr>primaries := butlast (primaries e)\<rparr>))
   \<and> conns (endpoint_flush e) = [] \<and> primaries (endpoint_flush e) = []
   \<and> length (conns (endpoint_run n ops new_endpoint)) \<le> n
   \<and> length (primaries (endpoint_run n ops new_endpoint)) \<le> n"
proof -
  have "pools_bounded n new_endpoint"
    by (simp add: pools_bounded_def new_endpoint_def)
  then have "pools_bounded n (endpoint_run n ops new_endpoint)"
    by (rule pools_bounded_run)
  then show ?thesis
    by (simp add: pools_bounded_def endpoint_release_def endpoint_pop_def endpoint_get_def
          getAny_def getPrimary_def endpoint_flush_def pool_of_def set_pool_def Let_def)
qed

text \<open>A pool of size one: a connection is made, released and pooled; a second connection
  released while the pool is full is dropped; the pooled one is handed out again.\<close>

theorem endpoint_pools_never_exceed_connPoolSize_witness:
  "conns (endpoint_release 1 (Some \<lparr>conn_no = 0, isPrimary = False\<rparr>) new_endpoint)
     = [\<lparr>conn_no = 0, isPrimary = False\<rparr>]
   \<and> conns (endpoint_release 1 (Some \<lparr>conn_no = 1, isPrimary = False\<rparr>)
              (endpoint_release 1 (Some \<lparr>conn_no = 0, isPrimary = False\<rparr>) new_endpoint))
     = [\<lparr>conn_no = 0, isPrimary = False\<rparr>]
   \<and> fst (getAny (endpoint_release 1 (Some \<lparr>conn_no = 0, isPrimary = False\<rparr>) new_endpoint))
     = \<lparr>conn_no = 0, isPrimary = False\<rparr>
   \<and> primaries (endpoint_release 1 (Some \<lparr>conn_no = 0, isPrimary = False\<rparr>) new_endpoint) = []"
  using endpoint_pools_never_exceed_connPoolSize
          [of 1 "\<lparr>conn_no = 0, isPrimary = False\<rparr>" new_endpoint "[]"]
        endpoint_pools_never_exceed_connPoolSize
          [of 1 "\<lparr>conn_no = 1, isPrimary = False\<rparr>"
              "endpoint_release 1 (Some \<lparr>conn_no = 0, isPrimary = False\<rparr>) new_endpoint" "[]"]
        endpoint_pools_never_exceed_connPoolSize
          [of 1 "\<lparr>conn_no = 0, isPrimary = False\<rparr>"
              "endpoint_release 1 (Some \<lparr>conn_no = 0, isPrimary = False\<rparr>) new_endpoint" "[]"]
  by (simp add: new_endpoint_def)

subsection \<open>Datasource identifiers\<close>

lemma generateIDs_Suc:
  "fst (generateIDs (Suc n) g) = (g + 1) # fst (generateIDs n (g + 1))"
  by (simp add: generateID_def split: prod.split)

lemma generateIDs_length: "length (fst (generateIDs n g)) = n"
  by (induction n arbitrary: g) (simp_all add: generateIDs_Suc del: generateIDs.simps(2))

lemma generateIDs_nth:
  "k < n \<Longrightarrow> fst (generateIDs n g) ! k = g + of_nat (Suc k)"
proof (induction n arbitrary: g k)
  case 0
  then show ?case by simp
next
  case (Suc n)
  show ?case
  proof (cases k)
    case 0
    then show ?thesis by (simp add: generateIDs_Suc del: generateIDs.simps(2))
  next
    case (Suc j)
    with Suc.prems have "j < n" by simp
    from Suc.IH [OF this, of "g + 1"] Suc show ?thesis
      by (simp add: generateIDs_Suc add.assoc del: generateIDs.simps(2))
  qed
qed

lemma of_nat_64_eq_iff:
  "a < 2 ^ 64 \<Longrightarrow> b < 2 ^ 64 \<Longrightarrow> (of_nat a :: 64 word) = of_nat b \<longleftrightarrow> a = b"
  by (simp add: word_of_nat_eq_iff take_bit_nat_eq_self)

lemma generateIDs_distinct_nonzero:
  assumes "n < 2 ^ 64"
  shows "distinct (fst (generateIDs n 0)) \<and> 0 \<notin> set (fst (generateIDs n 0))"
proof -
  let ?ids = "fst (generateIDs n 0)"
  have nth: "\<And>k. k < n \<Longrightarrow> ?ids ! k = of_nat (Suc k)"
    using generateIDs_nth [of _ n 0] by simp
  have "distinct ?ids"
    unfolding distinct_conv_nth generateIDs_length
  proof (intro allI impI)
    fix i j assume "i < n" "j < n" "i \<noteq> j"
    then have "Suc i < 2 ^ 64" "Suc j < 2 ^ 64" "Suc i \<noteq> Suc j" using assms by simp_all
    then have "(of_nat (Suc i) :: 64 word) \<noteq> of_nat (Suc j)"
      using of_nat_64_eq_iff by blast
    then show "?ids ! i \<noteq> ?ids ! j"
      using nth \<open>i < n\<close> \<open>j < n\<close> by simp
  qed
  moreover have "0 \<notin> set ?ids"
  proof
    assume "0 \<in> set ?ids"
    then obtain k where k: "k < n" "?ids ! k = 0"
      by (auto simp: in_set_conv_nth generateIDs_length)
    then have "(of_nat (Suc k) :: 64 word) = of_nat 0" using nth by simp
    moreover have "Suc k < 2 ^ 64" using k assms by simp
    ultimately have "Suc k = 0" using of_nat_64_eq_iff [of "Suc k" 0] by simp
    then show False by simp
  qed
  ultimately show ?thesis by simp
qed

subsection \<open>Acknowledgement merging\<close>

lemma count_word_simps:
  "count_word (BInt32 x) = scast x" "count_word (BInt64 y) = y"
  by (simp_all add: count_word_def)

lemma as_size_t_nonneg: "nonneg_int v \<Longrightarrow> as_size_t v = Inr (count_word v)"
  by (cases v) (simp_all add: as_size_t_def count_word_simps)

lemma as_bool_is_bool: "is_bool v \<Longrightarrow> as_bool v = Inr (bool_value v)"
  by (cases v) (simp_all add: as_bool_def bool_value_def)

lemma as_int32_nonneg: "nonneg_int32 v \<Longrightarrow> as_int32 v = Inr (int32_value v)"
  by (cases v) (simp_all add: as_int32_def int32_value_def)

lemma merge_element_wf:
  assumes "wellformed_element e"
  shows "merge_element s e = Inr (pure_merge e s)"
proof -
  obtain name v where e: "e = (name, v)" by (cases e)
  consider "name = ''err''" | "name = ''code''" | "name = ''n''" | "name = ''updatedExisting''"
    | "name = ''upserted''" | "name = ''wtimeout''" | "name = ''waited''" | "name = ''wtime''"
    | "name \<notin> {''err'', ''code'', ''n'', ''updatedExisting'', ''upserted'', ''wtimeout'', ''waited'', ''wtime''}"
    by (simp only: insert_iff empty_iff) metis
  then show ?thesis
  proof cases
    case 1 then show ?thesis by (simp add: e merge_element_def pure_merge_def)
  next
    case 2 then show ?thesis by (simp add: e merge_element_def pure_merge_def)
  next
    case 3 then show ?thesis using assms
      by (simp add: e merge_element_def pure_merge_def wellformed_element_def as_size_t_nonneg bindE_def)
  next
    case 4 then show ?thesis using assms
      by (simp add: e merge_element_def pure_merge_def wellformed_element_def as_bool_is_bool bindE_def)
  next
    case 5 then show ?thesis by (simp add: e merge_element_def pure_merge_def)
  next
    case 6 then show ?thesis using assms
      by (simp add: e merge_element_def pure_merge_def wellformed_element_def as_bool_is_bool bindE_def)
  next
    case 7 then show ?thesis using assms
      by (simp add: e merge_element_def pure_merge_def wellformed_element_def as_int32_nonneg bindE_def)
  next
    case 8 then show ?thesis using assms
      by (simp add: e merge_element_def pure_merge_def wellformed_element_def as_int32_nonneg bindE_def)
  next
    case 9 then show ?thesis by (simp add: e merge_element_def pure_merge_def)
  qed
qed

lemma merge_elements_wf:
  "list_all wellformed_element es \<Longrightarrow> merge_elements s es = Inr (fold pure_merge es s)"
  by (induction es arbitrary: s) (simp_all add: merge_element_wf bindE_def)

lemma merge_rets_wf:
  "wellformed_acks rets \<Longrightarrow> merge_rets s rets = Inr (fold pure_merge (concat rets) s)"
  by (induction rets arbitrary: s) (simp_all add: wellformed_acks_def merge_elements_wf bindE_def)

lemma ev_simps:
  "ev name [] = []"
  "ev name (e # es) = (if fst e = name then snd e # ev name es else ev name es)"
  by (simp_all add: ev_def)

lemma pure_merge_sel:
  "v_err (pure_merge e s) = (if fst e = ''err'' \<and> (v_err s = None \<or> v_err s = Some BNull) then Some (snd e) else v_err s)"
  "v_code (pure_merge e s) = (if fst e = ''code'' \<and> v_code s = None then Some (snd e) else v_code s)"
  "v_n (pure_merge e s) = (if fst e = ''n'' then v_n s + count_word (snd e) else v_n s)"
  "v_hasUpdatedExisting (pure_merge e s) = (v_hasUpdatedExisting s \<or> fst e = ''updatedExisting'')"
  "v_updatedExisting (pure_merge e s) = (v_updatedExisting s \<or> (fst e = ''updatedExisting'' \<and> bool_value (snd e)))"
  "v_upserted (pure_merge e s) = (if fst e = ''upserted'' \<and> v_upserted s = None then Some (snd e) else v_upserted s)"
  "v_wtimeout (pure_merge e s) = (v_wtimeout s \<or> (fst e = ''wtimeout'' \<and> bool_value (snd e)))"
  "v_waited (pure_merge e s) = (if fst e = ''waited'' then smax32 (v_waited s) (int32_value (snd e)) else v_waited s)"
  "v_wtime (pure_merge e s) = (if fst e = ''wtime'' then smax32 (v_wtime s) (int32_value (snd e)) else v_wtime s)"
  by (simp_all add: pure_merge_def)

lemma fold_err: "v_err (fold pure_merge es s) = err_acc (v_err s) (ev ''err'' es)"
  by (induction es arbitrary: s) (simp_all add: pure_merge_sel(1) ev_simps)

lemma fold_code: "v_code (fold pure_merge es s) = first_acc (v_code s) (ev ''code'' es)"
  by (induction es arbitrary: s) (simp_all add: pure_merge_sel(2) ev_simps)

lemma fold_upserted: "v_upserted (fold pure_merge es s) = first_acc (v_upserted s) (ev ''upserted'' es)"
  by (induction es arbitrary: s) (simp_all add: pure_merge_sel(6) ev_simps)

lemma err_acc_Some: "x \<noteq> BNull \<Longrightarrow> err_acc (Some x) vs = Some x"
  by (induction vs) simp_all

lemma err_acc_Null:
  "err_acc (Some BNull) vs =
     (case List.find (\<lambda>v. v \<noteq> BNull) vs of Some v \<Rightarrow> Some v | None \<Rightarrow> Some BNull)"
proof (induction vs)
  case Nil
  show ?case by simp
next
  case (Cons v vs)
  show ?case
    by (cases "v = BNull") (simp_all add: Cons.IH err_acc_Some)
qed

lemma err_acc_None:
  "err_acc None vs =
     (case List.find (\<lambda>v. v \<noteq> BNull) vs of
        Some v \<Rightarrow> Some v
      | None \<Rightarrow> if vs = [] then None else Some BNull)"
proof (cases vs)
  case Nil
  then show ?thesis by simp
next
  case (Cons v ws)
  show ?thesis
    by (cases "v = BNull") (simp_all add: Cons err_acc_Null err_acc_Some)
qed

lemma first_acc_Some: "first_acc (Some x) vs = Some x"
  by (induction vs) simp_all

lemma first_acc_None: "first_acc None vs = (case vs of [] \<Rightarrow> None | v # _ \<Rightarrow> Some v)"
  by (cases vs) (simp_all add: first_acc_Some)

lemma fold_n:
  "v_n (fold pure_merge es s) = v_n s + sum_list (map count_word (ev ''n'' es))"
  by (induction es arbitrary: s) (simp_all add: pure_merge_sel(3) ev_simps add.assoc)

lemma fold_has:
  "v_hasUpdatedExisting (fold pure_merge es s) =
     (v_hasUpdatedExisting s \<or> ev ''updatedExisting'' es \<noteq> [])"
  by (induction es arbitrary: s) (simp_all add: pure_merge_sel(4) ev_simps)

lemma fold_updatedExisting:
  "v_updatedExisting (fold pure_merge es s) =
     (v_updatedExisting s \<or> BBool True \<in> set (ev ''updatedExisting'' es))"
  by (induction es arbitrary: s)
     (simp_all add: pure_merge_sel(5) ev_simps bool_value_def eq_commute [of "BBool True"])

lemma fold_wtimeout:
  "v_wtimeout (fold pure_merge es s) =
     (v_wtimeout s \<or> BBool True \<in> set (ev ''wtimeout'' es))"
  by (induction es arbitrary: s)
     (simp_all add: pure_merge_sel(7) ev_simps bool_value_def eq_commute [of "BBool True"])

lemma sint_smax32: "sint (smax32 a b) = max (sint a) (sint b)"
  by (simp add: smax32_def max_def)

lemma fold_waited:
  "sint (v_waited (fold pure_merge es s)) =
     fold max (map (\<lambda>v. sint (int32_value v)) (ev ''waited'' es)) (sint (v_waited s))"
  by (induction es arbitrary: s) (simp_all add: pure_merge_sel(8) ev_simps sint_smax32 max.commute)

lemma fold_wtime:
  "sint (v_wtime (fold pure_merge es s)) =
     fold max (map (\<lambda>v. sint (int32_value v)) (ev ''wtime'' es)) (sint (v_wtime s))"
  by (induction es arbitrary: s) (simp_all add: pure_merge_sel(9) ev_simps sint_smax32 max.commute)

lemma lookup_append:
  "lookup (xs @ ys) k = (case lookup xs k of None \<Rightarrow> lookup ys k | Some v \<Rightarrow> Some v)"
  by (induction xs) auto

lemma lookup_opt_field:
  "lookup (opt_field name v) k = (if k = name then v else None)"
  by (cases v) (simp_all add: opt_field_def)

lemma lookup_if_field:
  "lookup (if b then [(name, x)] else []) k = (if b \<and> k = name then Some x else None)"
  by auto

lemma lookup_single: "lookup [(name, x)] k = (if k = name then Some x else None)"
  by auto

lemma lookup_ack_fields:
  "lookup (ack_fields a e c n u p w x y) ''ok'' = Some a"
  "lookup (ack_fields a e c n u p w x y) ''err'' = e"
  "lookup (ack_fields a e c n u p w x y) ''code'' = c"
  "lookup (ack_fields a e c n u p w x y) ''n'' = Some n"
  "lookup (ack_fields a e c n u p w x y) ''updatedExisting'' = u"
  "lookup (ack_fields a e c n u p w x y) ''upserted'' = p"
  "lookup (ack_fields a e c n u p w x y) ''wtimeout'' = w"
  "lookup (ack_fields a e c n u p w x y) ''waited'' = x"
  "lookup (ack_fields a e c n u p w x y) ''wtime'' = y"
  unfolding ack_fields_def lookup_append lookup_opt_field lookup_single
  by (simp_all split: option.split)

lemma if_field_opt: "(if b then [(name, x)] else []) = opt_field name (if b then Some x else None)"
  by (simp add: opt_field_def)

lemma build_ack_fields:
  "build_ack s =
     ack_fields (BInt32 (if v_err s \<noteq> None \<and> v_err s \<noteq> Some BNull then 0 else 1))
       (v_err s) (v_code s)
       (if 2147483647 < unat (v_n s) then BInt64 (v_n s) else BInt32 (ucast (v_n s)))
       (if v_hasUpdatedExisting s then Some (BBool (v_updatedExisting s)) else None)
       (v_upserted s)
       (if v_wtimeout s then Some (BBool True) else None)
       (if v_waited s \<noteq> 0 then Some (BInt32 (v_waited s)) else None)
       (if v_wtime s \<noteq> 0 then Some (BInt32 (v_wtime s)) else None)"
  unfolding build_ack_def ack_fields_def if_field_opt ..

lemma values_of_ev: "values_of name rets = ev name (concat rets)"
  by (simp add: values_of_def ev_def)

lemma wf_concat: "wellformed_acks rets \<Longrightarrow> list_all wellformed_element (concat rets)"
  by (induction rets) (simp_all add: wellformed_acks_def)

lemma wf_ev:
  assumes "list_all wellformed_element es"
  shows "list_all nonneg_int (ev ''n'' es)"
    and "list_all is_bool (ev ''updatedExisting'' es)"
    and "list_all is_bool (ev ''wtimeout'' es)"
    and "list_all nonneg_int32 (ev ''waited'' es)"
    and "list_all nonneg_int32 (ev ''wtime'' es)"
  using assms
  by (induction es) (simp_all add: ev_simps wellformed_element_def)

lemma wf_values:
  assumes "wellformed_acks rets"
  shows "list_all nonneg_int (values_of ''n'' rets)"
    and "list_all is_bool (values_of ''updatedExisting'' rets)"
    and "list_all is_bool (values_of ''wtimeout'' rets)"
    and "list_all nonneg_int32 (values_of ''waited'' rets)"
    and "list_all nonneg_int32 (values_of ''wtime'' rets)"
  by (simp_all only: values_of_ev wf_ev [OF wf_concat [OF assms]])

lemma sum_list_count_word:
  "sum_list (map count_word vs) = word_of_int (sum_list (map int_value vs))"
  by (induction vs) (simp_all add: count_word_def)

lemma sum_list_nonneg_int: "list_all nonneg_int vs \<Longrightarrow> 0 \<le> sum_list (map int_value vs)"
proof (induction vs)
  case Nil
  show ?case by simp
next
  case (Cons v vs)
  then have "0 \<le> int_value v" by (cases v) simp_all
  with Cons show ?case by simp
qed

lemma unat_word_of_int_64: "0 \<le> t \<Longrightarrow> t < 2 ^ 64 \<Longrightarrow> unat (word_of_int t :: 64 word) = nat t"
  by (simp add: unsigned_of_int take_bit_int_eq_self nat_take_bit_eq)

lemma ucast_word_of_int_64_32: "(ucast (word_of_int t :: 64 word) :: 32 word) = word_of_int t"
  by (rule ucast_down_wi) (simp add: is_down)

lemma map_sint_int32_value:
  "list_all nonneg_int32 vs \<Longrightarrow> map (\<lambda>v. sint (int32_value v)) vs = map int_value vs"
proof (induction vs)
  case Nil
  show ?case by simp
next
  case (Cons v vs)
  then have "sint (int32_value v) = int_value v" by (cases v) (simp_all add: int32_value_def)
  with Cons show ?case by simp
qed

lemma sint32_eq_0: "((w :: 32 word) = 0) = (sint w = 0)"
  by (metis sint_0 signed_eq_0_iff)

lemma nat_gt_int32_max: "0 \<le> (t::int) \<Longrightarrow> (2147483647 < nat t) = (2 ^ 31 - 1 < t)"
  by simp linarith

lemma is_bool_True_iff: "is_bool v \<Longrightarrow> bool_value v = (v = BBool True)"
  by (simp add: bool_value_def)

lemma defaultAckMerger_result:
  assumes len: "2 \<le> length rets"
      and wf: "wellformed_acks rets"
      and tot: "total_n rets < 2 ^ 63"
  shows "\<exists>doc. defaultAckMerger rets = Inr doc
     \<and> lookup doc ''ok'' = Some (BInt32 (if first_error rets \<noteq> None then 0 else 1))
     \<and> (first_error rets \<noteq> None \<longrightarrow> lookup doc ''err'' = first_error rets)
     \<and> (first_error rets = None \<longrightarrow>
            lookup doc ''err'' = (if values_of ''err'' rets \<noteq> [] then Some BNull else None))
     \<and> lookup doc ''code'' = first_value ''code'' rets
     \<and> lookup doc ''n'' =
          Some (if 2 ^ 31 - 1 < total_n rets then BInt64 (word_of_int (total_n rets))
                else BInt32 (word_of_int (total_n rets)))
     \<and> lookup doc ''updatedExisting'' =
          (if values_of ''updatedExisting'' rets \<noteq> []
           then Some (BBool (BBool True \<in> set (values_of ''updatedExisting'' rets)))
           else None)
     \<and> lookup doc ''upserted'' = first_value ''upserted'' rets
     \<and> lookup doc ''wtimeout'' =
          (if BBool True \<in> set (values_of ''wtimeout'' rets) then Some (BBool True) else None)
     \<and> lookup doc ''waited'' =
          (if max_of ''waited'' rets \<noteq> 0
           then Some (BInt32 (word_of_int (max_of ''waited'' rets))) else None)
     \<and> lookup doc ''wtime'' =
          (if max_of ''wtime'' rets \<noteq> 0
           then Some (BInt32 (word_of_int (max_of ''wtime'' rets))) else None)"
proof -
  define s where "s = fold pure_merge (concat rets) ack_vars_init"
  have m: "merge_rets ack_vars_init rets = Inr s"
    unfolding s_def by (rule merge_rets_wf [OF wf])
  have ne: "rets \<noteq> []" using len by (cases rets) simp_all
  have n1: "length rets \<noteq> 1" using len by linarith
  have run: "defaultAckMerger rets = Inr (build_ack s)"
    unfolding defaultAckMerger_def m bindE_def using ne n1 by (simp only: if_False sum.case)
  have err: "v_err s = (case first_error rets of Some v \<Rightarrow> Some v
                        | None \<Rightarrow> if values_of ''err'' rets = [] then None else Some BNull)"
    by (simp add: s_def fold_err err_acc_None first_error_def values_of_ev ack_vars_init_def)
  have nonnull: "v \<noteq> BNull" if "first_error rets = Some v" for v
    using that by (auto simp: first_error_def find_Some_iff)
  have ok: "(v_err s \<noteq> None \<and> v_err s \<noteq> Some BNull) = (first_error rets \<noteq> None)"
  proof (cases "first_error rets")
    case None
    then show ?thesis by (simp add: err)
  next
    case (Some v)
    then show ?thesis using nonnull [OF Some] by (simp add: err)
  qed
  have err': "v_err s = first_error rets" if "first_error rets \<noteq> None"
    using that by (cases "first_error rets") (simp_all add: err)
  have code: "v_code s = first_value ''code'' rets"
    by (simp add: s_def fold_code first_acc_None first_value_def values_of_ev ack_vars_init_def)
  have ups: "v_upserted s = first_value ''upserted'' rets"
    by (simp add: s_def fold_upserted first_acc_None first_value_def values_of_ev ack_vars_init_def)
  have n: "v_n s = word_of_int (total_n rets)"
    by (simp add: s_def fold_n sum_list_count_word total_n_def values_of_ev ack_vars_init_def)
  have tot0: "0 \<le> total_n rets"
    unfolding total_n_def using wf_values(1) [OF wf] by (rule sum_list_nonneg_int)
  have tot64: "total_n rets < 2 ^ 64" using tot by simp
  have un: "unat (v_n s) = nat (total_n rets)"
    unfolding n using tot0 tot64 by (rule unat_word_of_int_64)
  have big: "(2147483647 < unat (v_n s)) = (2 ^ 31 - 1 < total_n rets)"
    unfolding un using tot0 by (rule nat_gt_int32_max)
  have has: "v_hasUpdatedExisting s = (values_of ''updatedExisting'' rets \<noteq> [])"
    by (simp add: s_def fold_has values_of_ev ack_vars_init_def)
  have ue: "v_updatedExisting s = (BBool True \<in> set (values_of ''updatedExisting'' rets))"
    by (simp add: s_def fold_updatedExisting values_of_ev ack_vars_init_def)
  have wt: "v_wtimeout s = (BBool True \<in> set (values_of ''wtimeout'' rets))"
    by (simp add: s_def fold_wtimeout values_of_ev ack_vars_init_def)
  have waited: "sint (v_waited s) = max_of ''waited'' rets"
    unfolding s_def fold_waited max_of_def values_of_ev
      map_sint_int32_value [OF wf_ev(4) [OF wf_concat [OF wf]]]
    by (simp add: ack_vars_init_def)
  have wtime: "sint (v_wtime s) = max_of ''wtime'' rets"
    unfolding s_def fold_wtime max_of_def values_of_ev
      map_sint_int32_value [OF wf_ev(5) [OF wf_concat [OF wf]]]
    by (simp add: ack_vars_init_def)
  have waited_w: "v_waited s = word_of_int (max_of ''waited'' rets)"
    unfolding waited [symmetric] by simp
  have wtime_w: "v_wtime s = word_of_int (max_of ''wtime'' rets)"
    unfolding wtime [symmetric] by simp
  have waited0: "(v_waited s \<noteq> 0) = (max_of ''waited'' rets \<noteq> 0)"
    unfolding waited [symmetric] by (simp only: sint32_eq_0)
  have wtime0: "(v_wtime s \<noteq> 0) = (max_of ''wtime'' rets \<noteq> 0)"
    unfolding wtime [symmetric] by (simp only: sint32_eq_0)
  have c1: "lookup (build_ack s) ''ok'' = Some (BInt32 (if first_error rets \<noteq> None then 0 else 1))"
    by (simp only: build_ack_fields lookup_ack_fields ok)
  have c2: "lookup (build_ack s) ''err'' = first_error rets" if "first_error rets \<noteq> None"
    unfolding build_ack_fields lookup_ack_fields using that by (rule err')
  have c2b: "lookup (build_ack s) ''err'' =
               (if values_of ''err'' rets \<noteq> [] then Some BNull else None)"
    if "first_error rets = None"
    unfolding build_ack_fields lookup_ack_fields err using that by simp
  have c3: "lookup (build_ack s) ''code'' = first_value ''code'' rets"
    by (simp only: build_ack_fields lookup_ack_fields code)
  have c4: "lookup (build_ack s) ''n'' =
          Some (if 2 ^ 31 - 1 < total_n rets then BInt64 (word_of_int (total_n rets))
                else BInt32 (word_of_int (total_n rets)))"
    by (simp only: build_ack_fields lookup_ack_fields big) (simp only: n ucast_word_of_int_64_32)
  have c5: "lookup (build_ack s) ''updatedExisting'' =
          (if values_of ''updatedExisting'' rets \<noteq> []
           then Some (BBool (BBool True \<in> set (values_of ''updatedExisting'' rets)))
           else None)"
    by (simp only: build_ack_fields lookup_ack_fields has ue)
  have c6: "lookup (build_ack s) ''upserted'' = first_value ''upserted'' rets"
    by (simp only: build_ack_fields lookup_ack_fields ups)
  have c7: "lookup (build_ack s) ''wtimeout'' =
          (if BBool True \<in> set (values_of ''wtimeout'' rets) then Some (BBool True) else None)"
    by (simp only: build_ack_fields lookup_ack_fields wt)
  have c8: "lookup (build_ack s) ''waited'' =
          (if max_of ''waited'' rets \<noteq> 0
           then Some (BInt32 (word_of_int (max_of ''waited'' rets))) else None)"
    by (simp only: build_ack_fields lookup_ack_fields waited0) (simp only: waited_w)
  have c9: "lookup (build_ack s) ''wtime'' =
          (if max_of ''wtime'' rets \<noteq> 0
           then Some (BInt32 (word_of_int (max_of ''wtime'' rets))) else None)"
    by (simp only: build_ack_fields lookup_ack_fields wtime0) (simp only: wtime_w)
  show ?thesis
    apply (rule exI [of _ "build_ack s"])
    apply (intro conjI impI)
             apply (rule run)
            apply (rule c1)
            apply (erule c2)
           apply (erule c2b)
          apply (rule c3)
         apply (rule c4)
        apply (rule c5)
       apply (rule c6)
      apply (rule c7)
     apply (rule c8)
    apply (rule c9)
    done
qed

text \<open>
  Claim C4.  For two or more sub-acknowledgements whose counters are well formed
  (\<^verbatim>\<open>n\<close> a non-negative 32- or 64-bit integer, \<^verbatim>\<open>waited\<close> and
  \<^verbatim>\<open>wtime\<close> non-negative 32-bit integers, \<^verbatim>\<open>updatedExisting\<close> and
  \<^verbatim>\<open>wtimeout\<close> booleans) and whose \<^verbatim>\<open>n\<close> fields sum to less than
  \<open>2^63\<close>, the default merger returns a document in which \<^verbatim>\<open>ok\<close> is 1
  iff no sub-acknowledgement has a non-null \<^verbatim>\<open>err\<close> and 0 otherwise, together
  with the first non-null \<^verbatim>\<open>err\<close> and the first \<^verbatim>\<open>code\<close>; \<^verbatim>\<open>n\<close> is
  the sum, as a 64-bit integer when it exceeds \<open>2^31 - 1\<close> and as a 32-bit integer
  otherwise; \<^verbatim>\<open>updatedExisting\<close> is the disjunction of the values present;
  \<^verbatim>\<open>upserted\<close> is the first value present; \<^verbatim>\<open>wtimeout\<close> is the
  disjunction (the field is left out when it is false); \<^verbatim>\<open>waited\<close> and
  \<^verbatim>\<open>wtime\<close> are the maxima (left out when 0).
\<close>

theorem defaultAckMerger_merges_fields:
  assumes len: "2 \<le> length rets"
      and wf: "wellformed_acks rets"
      and tot: "total_n rets < 2 ^ 63"
  shows "\<exists>doc. defaultAckMerger rets = Inr doc
     \<and> lookup doc ''ok'' = Some (BInt32 (if first_error rets \<noteq> None then 0 else 1))
     \<and> (first_error rets \<noteq> None \<longrightarrow> lookup doc ''err'' = first_error rets)
     \<and> (first_error rets = None \<longrightarrow>
            lookup doc ''err'' = (if values_of ''err'' rets \<noteq> [] then Some BNull else None))
     \<and> lookup doc ''code'' = first_value ''code'' rets
     \<and> lookup doc ''n'' =
          Some (if 2 ^ 31 - 1 < total_n rets then BInt64 (word_of_int (total_n rets))
                else BInt32 (word_of_int (total_n rets)))
     \<and> lookup doc ''updatedExisting'' =
          (if values_of ''updatedExisting'' rets \<noteq> []
           then Some (BBool (BBool True \<in> set (values_of ''updatedExisting'' rets)))
           else None)
     \<and> lookup doc ''upserted'' = first_value ''upserted'' rets
     \<and> lookup doc ''wtimeout'' =
          (if BBool True \<in> set (values_of ''wtimeout'' rets) then Some (BBool True) else None)
     \<and> lookup doc ''waited'' =
          (if max_of ''waited'' rets \<noteq> 0
           then Some (BInt32 (word_of_int (max_of ''waited'' rets))) else None)
     \<and> lookup doc ''wtime'' =
          (if max_of ''wtime'' rets \<noteq> 0
           then Some (BInt32 (word_of_int (max_of ''wtime'' rets))) else None)"
  using len wf tot by (rule defaultAckMerger_result)


theorem defaultAckMerger_merges_fields_witness:
  "2 \<le> length [[(''ok'', BInt32 1), (''err'', BNull), (''n'', BInt32 1), (''updatedExisting'', BBool True)],
      [(''ok'', BInt32 1), (''err'', BString ''dup''), (''code'', BInt32 11000), (''n'', BInt32 2)]]
   \<and> wellformed_acks [[(''ok'', BInt32 1), (''err'', BNull), (''n'', BInt32 1), (''updatedExisting'', BBool True)],
      [(''ok'', BInt32 1), (''err'', BString ''dup''), (''code'', BInt32 11000), (''n'', BInt32 2)]]
   \<and> total_n [[(''ok'', BInt32 1), (''err'', BNull), (''n'', BInt32 1), (''updatedExisting'', BBool True)],
      [(''ok'', BInt32 1), (''err'', BString ''dup''), (''code'', BInt32 11000), (''n'', BInt32 2)]] < 2 ^ 63
   \<and> (\<exists>doc. defaultAckMerger [[(''ok'', BInt32 1), (''err'', BNull), (''n'', BInt32 1), (''updatedExisting'', BBool True)],
      [(''ok'', BInt32 1), (''err'', BString ''dup''), (''code'', BInt32 11000), (''n'', BInt32 2)]] = Inr doc
        \<and> lookup doc ''ok'' = Some (BInt32 0)
        \<and> lookup doc ''err'' = Some (BString ''dup'')
        \<and> lookup doc ''code'' = Some (BInt32 11000)
        \<and> lookup doc ''n'' = Some (BInt32 3)
        \<and> lookup doc ''updatedExisting'' = Some (BBool True))"
proof -
  let ?rets = "[[(''ok'', BInt32 1), (''err'', BNull), (''n'', BInt32 1), (''updatedExisting'', BBool True)],
      [(''ok'', BInt32 1), (''err'', BString ''dup''), (''code'', BInt32 11000), (''n'', BInt32 2)]]"
  have h1: "2 \<le> length ?rets" by simp
  have h2: "wellformed_acks ?rets"
    by (simp add: wellformed_acks_def wellformed_element_def)
  have t: "total_n ?rets = 3" by (simp add: total_n_def values_of_def)
  have h3: "total_n ?rets < 2 ^ 63" unfolding t by simp
  have fe: "first_error ?rets = Some (BString ''dup'')"
    by (simp add: first_error_def values_of_def)
  have fc: "first_value ''code'' ?rets = Some (BInt32 11000)"
    by (simp add: first_value_def values_of_def)
  have ue: "values_of ''updatedExisting'' ?rets = [BBool True]"
    by (simp add: values_of_def)
  from defaultAckMerger_merges_fields [OF h1 h2 h3]
  show ?thesis
    unfolding t fe fc ue using h1 h2 by (elim exE conjE) simp
qed

subsection \<open>Merging few acknowledgements\<close>

lemma ev_lookup:
  "distinct (map fst a) \<Longrightarrow> ev f a = (case lookup a f of None \<Rightarrow> [] | Some v \<Rightarrow> [v])"
proof (induction a)
  case Nil
  show ?case by (simp add: ev_simps)
next
  case (Cons e a)
  obtain name v where e: "e = (name, v)" by (cases e)
  from Cons.prems have d: "distinct (map fst a)" and nin: "name \<notin> fst ` set a"
    by (simp_all add: e)
  show ?case
  proof (cases "name = f")
    case True
    have "lookup a f = None"
    proof (cases "lookup a f")
      case None then show ?thesis .
    next
      case (Some w)
      have "\<And>a'. lookup a' f = Some w \<Longrightarrow> f \<in> fst ` set a'"
      proof -
        fix a' show "lookup a' f = Some w \<Longrightarrow> f \<in> fst ` set a'"
          by (induction a') (auto split: if_splits)
      qed
      from this [OF Some] nin True show ?thesis by simp
    qed
    then show ?thesis using True by (simp add: e ev_simps Cons.IH [OF d])
  next
    case False
    then show ?thesis by (simp add: e ev_simps Cons.IH [OF d])
  qed
qed

lemma values_of_pair: "values_of f [a, b] = ev f a @ ev f b"
  by (simp add: values_of_def ev_def)

lemma ev_null_ack:
  "ev ''err'' null_ack = []" "ev ''code'' null_ack = []" "ev ''n'' null_ack = [BInt32 0]"
  "ev ''updatedExisting'' null_ack = []" "ev ''upserted'' null_ack = []"
  "ev ''wtimeout'' null_ack = []" "ev ''waited'' null_ack = []" "ev ''wtime'' null_ack = []"
  by (simp_all add: null_ack_def ev_simps)

lemma wellformed_null_ack: "list_all wellformed_element null_ack"
  by (simp add: null_ack_def wellformed_element_def)

lemma find_singleton_notnull:
  "(case List.find (\<lambda>v. v \<noteq> BNull) [e] of Some v \<Rightarrow> Some v | None \<Rightarrow> Some BNull) = Some e"
  by simp


lemma plain_ack_n:
  assumes "plain_ack a"
  obtains x where "lookup a ''n'' = Some (BInt32 x)" "0 \<le> sint x"
  using assms by (auto simp: plain_ack_def split: option.splits bson.splits)

lemma lookup_in_set: "lookup a f = Some v \<Longrightarrow> (f, v) \<in> set a"
  by (induction a) (auto split: if_splits)

lemma plain_ack_typed:
  assumes "plain_ack a"
  shows "lookup a ''updatedExisting'' = Some v \<Longrightarrow> is_bool v"
    and "lookup a ''wtimeout'' = Some v \<Longrightarrow> is_bool v"
    and "lookup a ''waited'' = Some v \<Longrightarrow> nonneg_int32 v"
    and "lookup a ''wtime'' = Some v \<Longrightarrow> nonneg_int32 v"
proof -
  have wf: "\<And>e. e \<in> set a \<Longrightarrow> wellformed_element e"
    using assms by (simp add: plain_ack_def list_all_iff)
  show "lookup a ''updatedExisting'' = Some v \<Longrightarrow> is_bool v"
    using wf [OF lookup_in_set] by (simp add: wellformed_element_def)
  show "lookup a ''wtimeout'' = Some v \<Longrightarrow> is_bool v"
    using wf [OF lookup_in_set] by (simp add: wellformed_element_def)
  show "lookup a ''waited'' = Some v \<Longrightarrow> nonneg_int32 v"
    using wf [OF lookup_in_set] by (simp add: wellformed_element_def)
  show "lookup a ''wtime'' = Some v \<Longrightarrow> nonneg_int32 v"
    using wf [OF lookup_in_set] by (simp add: wellformed_element_def)
qed

lemma merge_with_null_ack:
  assumes pa: "plain_ack a"
  shows "\<exists>doc. defaultAckMerger [a, null_ack] = Inr doc
     \<and> lookup doc ''ok'' =
          Some (BInt32 (if lookup a ''err'' \<noteq> None \<and> lookup a ''err'' \<noteq> Some BNull then 0 else 1))
     \<and> lookup doc ''err'' = lookup a ''err''
     \<and> lookup doc ''code'' = lookup a ''code''
     \<and> lookup doc ''n'' = lookup a ''n''
     \<and> lookup doc ''updatedExisting'' = lookup a ''updatedExisting''
     \<and> lookup doc ''upserted'' = lookup a ''upserted''
     \<and> lookup doc ''wtimeout'' =
          (if lookup a ''wtimeout'' = Some (BBool True) then Some (BBool True) else None)
     \<and> lookup doc ''waited'' =
          (if lookup a ''waited'' \<noteq> Some (BInt32 0) then lookup a ''waited'' else None)
     \<and> lookup doc ''wtime'' =
          (if lookup a ''wtime'' \<noteq> Some (BInt32 0) then lookup a ''wtime'' else None)"
proof -
  let ?rets = "[a, null_ack]"
  have dist: "distinct (map fst a)" using pa by (simp add: plain_ack_def)
  note evl = ev_lookup [OF dist]
  obtain x where n: "lookup a ''n'' = Some (BInt32 x)" and x0: "0 \<le> sint x"
    using pa by (rule plain_ack_n)
  have len: "2 \<le> length ?rets" by simp
  have wf: "wellformed_acks ?rets"
    using pa by (simp add: wellformed_acks_def plain_ack_def wellformed_null_ack)
  have tn: "total_n ?rets = sint x"
    by (simp add: total_n_def values_of_pair evl n ev_null_ack)
  have "sint x < 2 ^ 31" using sint_lt [of x] by simp
  then have x31: "\<not> 2 ^ 31 - 1 < sint x" by simp
  have tot: "total_n ?rets < 2 ^ 63" unfolding tn using \<open>sint x < 2 ^ 31\<close> by simp
  have fe: "first_error ?rets =
      (if lookup a ''err'' \<noteq> None \<and> lookup a ''err'' \<noteq> Some BNull then lookup a ''err'' else None)"
    by (cases "lookup a ''err''") (simp_all add: first_error_def values_of_pair evl ev_null_ack)
  have ve: "(values_of ''err'' ?rets \<noteq> []) = (lookup a ''err'' \<noteq> None)"
    by (cases "lookup a ''err''") (simp_all add: values_of_pair evl ev_null_ack)
  have fc: "first_value ''code'' ?rets = lookup a ''code''"
    by (cases "lookup a ''code''") (simp_all add: first_value_def values_of_pair evl ev_null_ack)
  have fu: "first_value ''upserted'' ?rets = lookup a ''upserted''"
    by (cases "lookup a ''upserted''") (simp_all add: first_value_def values_of_pair evl ev_null_ack)
  have vu: "(if values_of ''updatedExisting'' ?rets \<noteq> []
             then Some (BBool (BBool True \<in> set (values_of ''updatedExisting'' ?rets)))
             else None) = lookup a ''updatedExisting''"
  proof (cases "lookup a ''updatedExisting''")
    case None
    then show ?thesis by (simp add: values_of_pair evl ev_null_ack)
  next
    case (Some v)
    from plain_ack_typed(1) [OF pa Some] obtain b where "v = BBool b" by (cases v) simp_all
    then show ?thesis using Some by (simp add: values_of_pair evl ev_null_ack eq_commute [of True])
  qed
  have vw: "(BBool True \<in> set (values_of ''wtimeout'' ?rets)) = (lookup a ''wtimeout'' = Some (BBool True))"
    by (cases "lookup a ''wtimeout''") (simp_all add: values_of_pair evl ev_null_ack eq_commute [of "BBool True"])
  have mw: "(if max_of f ?rets \<noteq> 0 then Some (BInt32 (word_of_int (max_of f ?rets))) else None)
            = (if lookup a f \<noteq> Some (BInt32 0) then lookup a f else None)"
    if f: "ev f null_ack = []" and ty: "\<And>v. lookup a f = Some v \<Longrightarrow> nonneg_int32 v" for f
  proof (cases "lookup a f")
    case None
    then show ?thesis by (simp add: max_of_def values_of_pair evl f)
  next
    case (Some v)
    from ty [OF Some] obtain y where v: "v = BInt32 y" and y0: "0 \<le> sint y" by (cases v) simp_all
    have m: "max_of f ?rets = sint y"
      using y0 by (simp add: max_of_def values_of_pair evl f Some v max_def)
    have z: "(sint y \<noteq> 0) = (y \<noteq> 0)" by (simp only: sint32_eq_0)
    show ?thesis unfolding m z by (simp add: Some v)
  qed
  from defaultAckMerger_result [OF len wf tot]
  obtain doc where d: "defaultAckMerger ?rets = Inr doc"
    and ok: "lookup doc ''ok'' = Some (BInt32 (if first_error ?rets \<noteq> None then 0 else 1))"
    and e1: "first_error ?rets \<noteq> None \<longrightarrow> lookup doc ''err'' = first_error ?rets"
    and e2: "first_error ?rets = None \<longrightarrow>
            lookup doc ''err'' = (if values_of ''err'' ?rets \<noteq> [] then Some BNull else None)"
    and c: "lookup doc ''code'' = first_value ''code'' ?rets"
    and nn: "lookup doc ''n'' =
          Some (if 2 ^ 31 - 1 < total_n ?rets then BInt64 (word_of_int (total_n ?rets))
                else BInt32 (word_of_int (total_n ?rets)))"
    and u: "lookup doc ''updatedExisting'' =
          (if values_of ''updatedExisting'' ?rets \<noteq> []
           then Some (BBool (BBool True \<in> set (values_of ''updatedExisting'' ?rets)))
           else None)"
    and up: "lookup doc ''upserted'' = first_value ''upserted'' ?rets"
    and w: "lookup doc ''wtimeout'' =
          (if BBool True \<in> set (values_of ''wtimeout'' ?rets) then Some (BBool True) else None)"
    and wa: "lookup doc ''waited'' =
          (if max_of ''waited'' ?rets \<noteq> 0
           then Some (BInt32 (word_of_int (max_of ''waited'' ?rets))) else None)"
    and wti: "lookup doc ''wtime'' =
          (if max_of ''wtime'' ?rets \<noteq> 0
           then Some (BInt32 (word_of_int (max_of ''wtime'' ?rets))) else None)"
    by (elim exE conjE)
  have r_ok: "lookup doc ''ok'' =
      Some (BInt32 (if lookup a ''err'' \<noteq> None \<and> lookup a ''err'' \<noteq> Some BNull then 0 else 1))"
    unfolding ok fe by simp
  have r_err: "lookup doc ''err'' = lookup a ''err''"
  proof (cases "lookup a ''err''")
    case None
    have "first_error ?rets = None" by (simp add: fe None)
    with e2 show ?thesis by (simp add: ve None)
  next
    case (Some e)
    show ?thesis
    proof (cases "e = BNull")
      case True
      have "first_error ?rets = None" by (simp add: fe Some True)
      with e2 show ?thesis by (simp add: ve Some True)
    next
      case False
      have "first_error ?rets = Some e" by (simp add: fe Some False)
      with e1 show ?thesis by (simp add: Some)
    qed
  qed
  have r_n: "lookup doc ''n'' = lookup a ''n''"
    unfolding nn tn n using x31 by simp
  show ?thesis
    apply (rule exI [of _ doc])
    apply (intro conjI)
             apply (rule d)
            apply (rule r_ok)
           apply (rule r_err)
          apply (simp only: c fc)
         apply (rule r_n)
        apply (simp only: u vu)
       apply (simp only: up fu)
      apply (simp only: w vw)
     apply (simp only: wa mw [OF ev_null_ack(7) plain_ack_typed(3) [OF pa]])
    apply (simp only: wti mw [OF ev_null_ack(8) plain_ack_typed(4) [OF pa]])
    done
qed

text \<open>
  Claim C5 (as amended).  The merger returns the empty document for the empty list
  and the acknowledgement itself for a one-element list.  Merging a plain
  acknowledgement \<open>a\<close> with the null acknowledgement returns a document that has
  \<open>a\<close>'s \<^verbatim>\<open>err\<close>, \<^verbatim>\<open>code\<close>, \<^verbatim>\<open>n\<close>, \<^verbatim>\<open>updatedExisting\<close>
  and \<^verbatim>\<open>upserted\<close>, has \<^verbatim>\<open>wtimeout\<close> only when it is true in \<open>a\<close> and
  \<^verbatim>\<open>waited\<close>, \<^verbatim>\<open>wtime\<close> only when they are not 0 in \<open>a\<close>, and in which
  \<^verbatim>\<open>ok\<close> is computed anew: 1 iff \<open>a\<close> has no non-null \<^verbatim>\<open>err\<close>,
  whatever \<open>a\<close>'s own \<^verbatim>\<open>ok\<close> is.
\<close>

theorem defaultAckMerger_few_acks:
  "defaultAckMerger [] = Inr []
   \<and> defaultAckMerger [a] = Inr a
   \<and> (plain_ack a \<longrightarrow>
        (\<exists>doc. defaultAckMerger [a, null_ack] = Inr doc
           \<and> lookup doc ''ok'' =
                Some (BInt32 (if lookup a ''err'' \<noteq> None \<and> lookup a ''err'' \<noteq> Some BNull
                              then 0 else 1))
           \<and> lookup doc ''err'' = lookup a ''err''
           \<and> lookup doc ''code'' = lookup a ''code''
           \<and> lookup doc ''n'' = lookup a ''n''
           \<and> lookup doc ''updatedExisting'' = lookup a ''updatedExisting''
           \<and> lookup doc ''upserted'' = lookup a ''upserted''
           \<and> lookup doc ''wtimeout'' =
                (if lookup a ''wtimeout'' = Some (BBool True) then Some (BBool True) else None)
           \<and> lookup doc ''waited'' =
                (if lookup a ''waited'' \<noteq> Some (BInt32 0) then lookup a ''waited'' else None)
           \<and> lookup doc ''wtime'' =
                (if lookup a ''wtime'' \<noteq> Some (BInt32 0) then lookup a ''wtime'' else None)))"
proof (intro conjI impI)
  show "defaultAckMerger [] = Inr []" by (simp add: defaultAckMerger_def)
  show "defaultAckMerger [a] = Inr a" by (simp add: defaultAckMerger_def)
qed (rule merge_with_null_ack)

theorem defaultAckMerger_few_acks_witness:
  "plain_ack [(''ok'', BInt32 1), (''err'', BNull), (''n'', BInt32 3), (''wtimeout'', BBool False)]
   \<and> (\<exists>doc. defaultAckMerger
               [[(''ok'', BInt32 1), (''err'', BNull), (''n'', BInt32 3), (''wtimeout'', BBool False)],
                null_ack] = Inr doc
          \<and> lookup doc ''ok'' = Some (BInt32 1)
          \<and> lookup doc ''err'' = Some BNull
          \<and> lookup doc ''n'' = Some (BInt32 3)
          \<and> lookup doc ''wtimeout'' = None)"
proof -
  let ?a = "[(''ok'', BInt32 1), (''err'', BNull), (''n'', BInt32 3), (''wtimeout'', BBool False)]"
  have h: "plain_ack ?a"
    by (simp add: plain_ack_def wellformed_element_def)
  from defaultAckMerger_few_acks [of ?a] h
  have "\<exists>doc. defaultAckMerger [?a, null_ack] = Inr doc
           \<and> lookup doc ''ok'' =
                Some (BInt32 (if lookup ?a ''err'' \<noteq> None \<and> lookup ?a ''err'' \<noteq> Some BNull
                              then 0 else 1))
           \<and> lookup doc ''err'' = lookup ?a ''err''
           \<and> lookup doc ''code'' = lookup ?a ''code''
           \<and> lookup doc ''n'' = lookup ?a ''n''
           \<and> lookup doc ''updatedExisting'' = lookup ?a ''updatedExisting''
           \<and> lookup doc ''upserted'' = lookup ?a ''upserted''
           \<and> lookup doc ''wtimeout'' =
                (if lookup ?a ''wtimeout'' = Some (BBool True) then Some (BBool True) else None)
           \<and> lookup doc ''waited'' =
                (if lookup ?a ''waited'' \<noteq> Some (BInt32 0) then lookup ?a ''waited'' else None)
           \<and> lookup doc ''wtime'' =
                (if lookup ?a ''wtime'' \<noteq> Some (BInt32 0) then lookup ?a ''wtime'' else None)"
    by (elim conjE impE)
  then show ?thesis using h by (elim exE conjE) simp
qed

text \<open>
  The claim as it was stated (merging with the null acknowledgement gives back the
  acknowledgement, up to field presence) fails on the acknowledgement of a
  duplicate-key error, which carries \<^verbatim>\<open>ok: 1\<close> beside a non-null
  \<^verbatim>\<open>err\<close>: both documents have an \<^verbatim>\<open>ok\<close> field and the values differ.
\<close>

theorem defaultAckMerger_null_ack_counterexample:
  "defaultAckMerger
     [[(''ok'', BInt32 1), (''err'', BString ''E11000 duplicate key error''),
       (''code'', BInt32 11000), (''n'', BInt32 0)], null_ack]
   = Inr [(''ok'', BInt32 0), (''err'', BString ''E11000 duplicate key error''),
          (''code'', BInt32 11000), (''n'', BInt32 0)]
   \<and> lookup [(''ok'', BInt32 1), (''err'', BString ''E11000 duplicate key error''),
              (''code'', BInt32 11000), (''n'', BInt32 0)] ''ok'' = Some (BInt32 1)"
  by (simp add: defaultAckMerger_def null_ack_def bindE_def merge_element_def ack_vars_init_def
      build_ack_def opt_field_def as_size_t_def Let_def)

subsection \<open>Chunk versions\<close>




lemma max_stamp_group_key:
  "max_stamp pre (ch_ns ch) (shard ch) = max_stamp pre (fst (group_key ch)) (snd (group_key ch))"
  by (simp add: group_key_def)





















lemma group_key_adopt: "group_key (adopt chs a) = group_key a"
  by (simp add: adopt_def group_key_def)

subsection \<open>Construction of a configuration\<close>
















subsection \<open>Backend selection by roundtrip\<close>

lemma scaled_index_less:
  fixes r n M :: nat
  assumes "r < M" "0 < n"
  shows "r * n div M < n"
proof -
  have "r * n < M * n" using assms by (rule mult_less_mono1)
  then have "r * n < n * M" by (simp only: mult.commute)
  then show ?thesis by (rule less_mult_imp_div_less)
qed

lemma scaled_index_reached:
  fixes i n M :: nat
  assumes "i < n" "n \<le> M"
  shows "\<exists>r<M. r * n div M = i"
proof -
  define a where "a = i * M + n - 1"
  define r where "r = a div n"
  define p where "p = r * n"
  define q where "q = i * M"
  have npos: "0 < n" using assms by simp
  have "r * n + a mod n = a" unfolding r_def by (rule div_mult_mod_eq)
  moreover have "a mod n < n" using npos by (rule mod_less_divisor)
  moreover have "a = q + n - 1" by (simp only: a_def q_def)
  ultimately have lo: "q \<le> p" and hi': "p \<le> q + n - 1" unfolding p_def using npos by arith+
  from hi' assms npos have hi: "p < q + M" by arith
  have "M * i \<le> p" using lo by (simp only: q_def mult.commute)
  moreover have "p < M * Suc i" using hi by (simp add: q_def mult.commute)
  ultimately have idx: "p div M = i" by (rule div_nat_eqI)
  have "Suc i \<le> n" using assms by simp
  then have "Suc i * M \<le> n * M" by (rule mult_le_mono1)
  moreover have "p < Suc i * M" using hi by (simp add: q_def)
  ultimately have "p < n * M" by (rule order_less_le_trans [rotated])
  then have "r * n < M * n" by (simp only: p_def mult.commute)
  then have "r < M" by simp
  with idx show ?thesis unfolding p_def by blast
qed

lemma local_index_less:
  assumes "r \<le> RAND_MAX" "0 < n"
  shows "r * n div (RAND_MAX + 1) < n"
  using assms by (intro scaled_index_less) simp_all

lemma local_index_reached:
  assumes "i < n" "n \<le> RAND_MAX + 1"
  shows "\<exists>r\<le>RAND_MAX. r * n div (RAND_MAX + 1) = i"
proof -
  from scaled_index_reached [OF assms]
  obtain r where "r < RAND_MAX + 1" "r * n div (RAND_MAX + 1) = i" by blast
  then have "r \<le> RAND_MAX \<and> r * n div (RAND_MAX + 1) = i" by simp
  then show ?thesis by blast
qed

lemma local_prefix_length: "length (local_prefix t cs) \<le> length cs"
  by (simp add: local_prefix_def length_takeWhile_le)

lemma local_range_bounds:
  assumes "cs \<noteq> []"
  shows "0 < local_range t cs" "local_range t cs \<le> length cs"
  using assms local_prefix_length [of t cs] by (simp_all add: local_range_def)

lemma local_prefix_empty_iff:
  assumes "cs \<noteq> []"
  shows "local_prefix t cs = [] \<longleftrightarrow> \<not> sint (roundtrip (hd cs)) < sint t"
  using assms by (cases cs) (simp_all add: local_prefix_def)

lemma local_prefix_hd:
  assumes "cs \<noteq> []" "local_prefix t cs \<noteq> []"
  shows "hd (local_prefix t cs) = hd cs"
  using assms by (cases cs) (simp_all add: local_prefix_def split: if_splits)

lemma local_threshold_no_overflow:
  assumes pos: "0 < sint lt"
      and fits: "sint (roundtrip (hd cs)) + 1000 * sint lt < 2 ^ 63"
  shows "sint (roundtrip (hd cs)) < sint (local_threshold lt cs)"
proof -
  let ?a = "sint (roundtrip (hd cs))"
  let ?b = "1000 * sint lt"
  have a: "- (2 ^ 63) \<le> ?a" using sint_ge [of "roundtrip (hd cs)"] by simp
  have b: "0 < ?b" using pos by simp
  have w: "local_threshold lt cs = word_of_int (?a + ?b)"
    by (simp add: local_threshold_def)
  have "signed_take_bit (LENGTH(64) - 1) (?a + ?b) = ?a + ?b"
    by (rule signed_take_bit_int_eq_self) (use a b fits in simp_all)
  then have "sint (word_of_int (?a + ?b) :: 64 word) = ?a + ?b"
    by (simp only: sint_sbintrunc')
  then have "sint (local_threshold lt cs) = ?a + ?b" by (simp only: w)
  then show ?thesis using b by simp
qed

lemma selectLocal_index:
  assumes rand: "r \<le> RAND_MAX"
      and cs: "filter pred byrt \<noteq> []"
      and len: "length byrt \<le> RAND_MAX + 1"
  shows "selectLocal localThreshold r pred byrt
           = Inr (Some (filter pred byrt
               ! (r * local_range (local_threshold localThreshold (filter pred byrt))
                        (filter pred byrt) div (RAND_MAX + 1))))"
proof -
  let ?cs = "filter pred byrt"
  let ?n = "local_range (local_threshold localThreshold ?cs) ?cs"
  have n: "0 < ?n" "?n \<le> length ?cs" by (rule local_range_bounds [OF cs])+
  have idx: "r * ?n div (RAND_MAX + 1) < ?n" by (rule local_index_less [OF rand n(1)])
  have "length ?cs \<le> RAND_MAX + 1" by (rule order_trans [OF length_filter_le len])
  then have "length ?cs < 2 ^ 32" by (simp add: RAND_MAX_def)
  with idx n(2) have small: "r * ?n div (RAND_MAX + 1) < 2 ^ 32" by simp
  have li: "local_index r ?n = r * ?n div (RAND_MAX + 1)"
    unfolding local_index_def using small by (rule mod_less)
  have "local_index r ?n < length ?cs" unfolding li using idx n(2) by simp
  then show ?thesis using cs by (simp add: selectLocal_def Let_def li)
qed

text \<open>
  Claim C1, as the code has it.  Let the candidates be the backends, sorted by roundtrip,
  that pass the predicate, let the threshold be the roundtrip of the first candidate plus
  \<open>localThreshold\<close>, computed on 64-bit words, and let the prefix be the leading candidates
  whose roundtrip is strictly below the threshold.  With a value of \<^verbatim>\<open>rand()\<close> in range, at
  least one candidate and at most \<open>RAND_MAX + 1\<close> backends, the backend chosen is the
  candidate at index \<open>r * n div (RAND_MAX + 1)\<close>, where \<open>n\<close> is the length of the prefix, or
  the number of all candidates when the prefix is empty.  The index lies in the range and
  every position of the range is chosen by some random value.  The prefix is empty, and
  the range widened, exactly when the roundtrip of the first candidate is not below the
  threshold; with a positive \<open>localThreshold\<close> and a sum that does not overflow, the prefix
  starts with the first candidate and is not widened, even when it holds that candidate
  alone.
\<close>

theorem selectLocal_picks_from_local_prefix:
  assumes rand: "r \<le> RAND_MAX"
      and cs: "filter pred byrt \<noteq> []"
      and len: "length byrt \<le> RAND_MAX + 1"
  shows
    "(let candidates = filter pred byrt;
          threshold = roundtrip (hd candidates) + 1000 * localThreshold;
          prefix = takeWhile (\<lambda>b. sint (roundtrip b) < sint threshold) candidates;
          n = (if prefix = [] then length candidates else length prefix)
      in selectLocal localThreshold r pred byrt
           = Inr (Some (candidates ! (r * n div (RAND_MAX + 1))))
         \<and> r * n div (RAND_MAX + 1) < n \<and> n \<le> length candidates
         \<and> (\<forall>i<n. \<exists>r'\<le>RAND_MAX.
                selectLocal localThreshold r' pred byrt = Inr (Some (candidates ! i)))
         \<and> (prefix = [] \<longleftrightarrow> \<not> sint (roundtrip (hd candidates)) < sint threshold)
         \<and> (0 < sint localThreshold
              \<and> sint (roundtrip (hd candidates)) + 1000 * sint localThreshold < 2 ^ 63
              \<longrightarrow> prefix \<noteq> [] \<and> hd prefix = hd candidates \<and> n = length prefix))"
proof -
  let ?cs = "filter pred byrt"
  let ?t = "local_threshold localThreshold ?cs"
  let ?n = "local_range ?t ?cs"
  have t_eq: "roundtrip (hd ?cs) + 1000 * localThreshold = ?t"
    by (simp add: local_threshold_def)
  have p_eq: "takeWhile (\<lambda>b. sint (roundtrip b) < sint ?t) ?cs = local_prefix ?t ?cs"
    by (simp add: local_prefix_def)
  have n_eq: "(if local_prefix ?t ?cs = [] then length ?cs else length (local_prefix ?t ?cs)) = ?n"
    by (simp add: local_range_def)
  have n: "0 < ?n" "?n \<le> length ?cs" by (rule local_range_bounds [OF cs])+
  have c1: "selectLocal localThreshold r pred byrt
              = Inr (Some (?cs ! (r * ?n div (RAND_MAX + 1))))"
    by (rule selectLocal_index [OF rand cs len])
  have c2: "r * ?n div (RAND_MAX + 1) < ?n" by (rule local_index_less [OF rand n(1)])
  have nM: "?n \<le> RAND_MAX + 1"
    by (rule order_trans [OF n(2) order_trans [OF length_filter_le len]])
  have c4: "\<forall>i<?n. \<exists>r'\<le>RAND_MAX.
              selectLocal localThreshold r' pred byrt = Inr (Some (?cs ! i))"
  proof (intro allI impI)
    fix i assume "i < ?n"
    from local_index_reached [OF this nM]
    obtain r' where r': "r' \<le> RAND_MAX" "r' * ?n div (RAND_MAX + 1) = i" by blast
    from selectLocal_index [OF r'(1) cs len, of localThreshold] r'(2)
    have "selectLocal localThreshold r' pred byrt = Inr (Some (?cs ! i))" by simp
    with r'(1) show "\<exists>r'\<le>RAND_MAX.
        selectLocal localThreshold r' pred byrt = Inr (Some (?cs ! i))" by blast
  qed
  have c5: "local_prefix ?t ?cs = [] \<longleftrightarrow> \<not> sint (roundtrip (hd ?cs)) < sint ?t"
    by (rule local_prefix_empty_iff [OF cs])
  have c6: "0 < sint localThreshold
              \<and> sint (roundtrip (hd ?cs)) + 1000 * sint localThreshold < 2 ^ 63
            \<longrightarrow> local_prefix ?t ?cs \<noteq> [] \<and> hd (local_prefix ?t ?cs) = hd ?cs
                \<and> ?n = length (local_prefix ?t ?cs)"
  proof (intro impI, elim conjE)
    assume "0 < sint localThreshold"
       and "sint (roundtrip (hd ?cs)) + 1000 * sint localThreshold < 2 ^ 63"
    then have "sint (roundtrip (hd ?cs)) < sint ?t" by (rule local_threshold_no_overflow)
    with c5 have ne: "local_prefix ?t ?cs \<noteq> []" by simp
    with local_prefix_hd [OF cs ne]
    show "local_prefix ?t ?cs \<noteq> [] \<and> hd (local_prefix ?t ?cs) = hd ?cs
            \<and> ?n = length (local_prefix ?t ?cs)"
      by (simp add: local_range_def)
  qed
  show ?thesis
    unfolding Let_def t_eq p_eq n_eq using c1 c2 n(2) c4 c5 c6 by (intro conjI)
qed

theorem selectLocal_picks_from_local_prefix_witness:
  "RAND_MAX \<le> RAND_MAX
   \<and> filter any_backend [near_backend, far_backend, far_backend] \<noteq> []
   \<and> length [near_backend, far_backend, far_backend] \<le> RAND_MAX + 1
   \<and> selectLocal 10 RAND_MAX any_backend [near_backend, far_backend, far_backend]
       = Inr (Some near_backend)
   \<and> selectLocal 10 RAND_MAX any_backend [dead_backend, dead_backend']
       = Inr (Some dead_backend')"
proof -
  have h1: "RAND_MAX \<le> RAND_MAX" by simp
  have h2: "filter any_backend [near_backend, far_backend, far_backend] \<noteq> []"
    by (simp add: any_backend_def)
  have h3: "length [near_backend, far_backend, far_backend] \<le> RAND_MAX + 1"
    by (simp add: RAND_MAX_def)
  have d2: "filter any_backend [dead_backend, dead_backend'] \<noteq> []"
    by (simp add: any_backend_def)
  have d3: "length [dead_backend, dead_backend'] \<le> RAND_MAX + 1"
    by (simp add: RAND_MAX_def)
  have "selectLocal 10 RAND_MAX any_backend [near_backend, far_backend, far_backend]
          = Inr (Some near_backend)"
    using selectLocal_picks_from_local_prefix [OF h1 h2 h3, of 10, unfolded Let_def, THEN conjunct1]
    by (simp add: any_backend_def near_backend_def far_backend_def RAND_MAX_def)
  moreover
  have "selectLocal 10 RAND_MAX any_backend [dead_backend, dead_backend']
          = Inr (Some dead_backend')"
    using selectLocal_picks_from_local_prefix [OF h1 d2 d3, of 10, unfolded Let_def, THEN conjunct1]
    by (simp add: any_backend_def dead_backend_def dead_backend'_def RAND_MAX_def)
  ultimately show ?thesis using h1 h2 h3 by (intro conjI)
qed

text \<open>
  With the default \<open>localThreshold\<close> of 10 ms, a backend at 1 ms and one at 100 ms, the
  prefix holds the fastest backend alone.  The code then draws from that prefix of length
  one, so even the greatest random value selects the near backend; drawing from the whole
  candidate set, as the widened range would have it, the same random value selects the
  far one.
\<close>

theorem selectLocal_single_fastest_counterexample:
  "local_prefix (local_threshold 10 [near_backend, far_backend]) [near_backend, far_backend]
     = [near_backend]
   \<and> local_range (local_threshold 10 [near_backend, far_backend]) [near_backend, far_backend] = 1
   \<and> widened_range (local_threshold 10 [near_backend, far_backend])
         [near_backend, far_backend] = 2
   \<and> selectLocal 10 RAND_MAX any_backend [near_backend, far_backend] = Inr (Some near_backend)
   \<and> selectLocal 10 RAND_MAX any_backend [near_backend, far_backend]
       \<noteq> Inr (Some ([near_backend, far_backend]
             ! (RAND_MAX * widened_range (local_threshold 10 [near_backend, far_backend])
                   [near_backend, far_backend] div (RAND_MAX + 1))))"
  by (simp add: selectLocal_def Let_def any_backend_def near_backend_def far_backend_def
        local_threshold_def local_prefix_def local_range_def widened_range_def local_index_def
        RAND_MAX_def)

subsection \<open>Hashed sharding keys\<close>

lemma bit_length_between:
  "2 ^ k \<le> n \<Longrightarrow> n < 2 ^ Suc k \<Longrightarrow> bit_length n = Suc k"
proof (induction k arbitrary: n)
  case 0
  then have "n = 1" by simp
  then show ?case by (simp add: bit_length.simps [of "Suc 0"] bit_length.simps [of 0])
next
  case (Suc k)
  from Suc.prems have "2 ^ k \<le> n div 2" "n div 2 < 2 ^ Suc k" by simp_all
  then have "bit_length (n div 2) = Suc k" by (rule Suc.IH)
  moreover from Suc.prems have "n \<noteq> 0" by auto
  ultimately show ?case by (simp add: bit_length.simps [of n])
qed

lemma bit_length_int64_max: "bit_length (nat \<bar>INT64_MAX\<bar>) = 63"
  using bit_length_between [of 62 "nat \<bar>INT64_MAX\<bar>"] by (simp add: INT64_MAX_def)

lemma bit_length_int64_min: "bit_length (nat \<bar>INT64_MIN\<bar>) = 64"
  using bit_length_between [of 63 "nat \<bar>INT64_MIN\<bar>"] by (simp add: INT64_MIN_def)

lemma double_of_INT64_MAX: "double_of_int INT64_MAX = 2 ^ 63"
  unfolding double_of_int_def Let_def bit_length_int64_max
  by (simp add: INT64_MAX_def)

lemma double_of_INT64_MIN: "double_of_int INT64_MIN = - (2 ^ 63)"
  unfolding double_of_int_def Let_def bit_length_int64_min
  by (simp add: INT64_MIN_def)

lemma hash_double_NaN: "hash_double NaN = Inr 0"
  by (simp add: hash_double_def)

lemma hash_double_below:
  "q < - (2 ^ 63) \<Longrightarrow> hash_double (Finite q) = Inr (word_of_int INT64_MIN)"
  "hash_double NegInf = Inr (word_of_int INT64_MIN)"
  by (simp_all add: hash_double_def double_of_INT64_MIN)

lemma hash_double_above:
  "2 ^ 63 < q \<Longrightarrow> hash_double (Finite q) = Inr (word_of_int INT64_MAX)"
  "hash_double PosInf = Inr (word_of_int INT64_MAX)"
  by (simp_all add: hash_double_def double_of_INT64_MIN double_of_INT64_MAX)

lemma trunc_of_int: "trunc (of_int i) = i"
  by (simp add: trunc_def)

lemma hash_double_integral:
  assumes "INT64_MIN \<le> i" "i \<le> INT64_MAX"
  shows "hash_double (Finite (of_int i)) = Inr (word_of_int i)"
proof -
  have lo: "\<not> (of_int i :: rat) < - (2 ^ 63)"
  proof -
    have "(of_int (- (2 ^ 63)) :: rat) \<le> of_int i"
      using assms(1) unfolding INT64_MIN_def by (simp only: of_int_le_iff)
    then show ?thesis by simp
  qed
  have hi: "\<not> (2 ^ 63 :: rat) < of_int i"
  proof -
    have "(of_int i :: rat) \<le> of_int (2 ^ 63)"
      using assms(2) unfolding INT64_MAX_def by simp
    then show ?thesis by simp
  qed
  show ?thesis
    using lo hi assms
    by (simp add: hash_double_def double_of_INT64_MIN double_of_INT64_MAX
          double_to_integer_def trunc_of_int bindE_def)
qed

lemma hash_double_2_63: "hash_double (Finite (2 ^ 63)) = Inl UndefinedBehaviour"
proof -
  have "trunc (2 ^ 63) = 2 ^ 63" using trunc_of_int [of "2 ^ 63"] by simp
  then show ?thesis
    unfolding hash_double_def double_of_INT64_MIN double_of_INT64_MAX
    by (simp add: double_to_integer_def bindE_def INT64_MAX_def INT64_MIN_def)
qed

lemma hash_input_double:
  "hash_input (Some (BDouble v))
     = bindE (hash_double v) (\<lambda>i. Inr (int32_bytes 0 @ int32_bytes 10 @ int64_bytes i))"
  by (cases "hash_double v")
     (simp_all add: hash_input_def hashType_bytes_def hashType_def isNumber_def bindE_def)

lemma hash_input_int64:
  "hash_input (Some (BInt64 x)) = Inr (int32_bytes 0 @ int32_bytes 10 @ int64_bytes x)"
  by (simp add: hash_input_def hashType_bytes_def hashType_def isNumber_def bindE_def
        as_int64_def)

lemma hash_input_int32:
  "hash_input (Some (BInt32 x)) = Inr (int32_bytes 0 @ int32_bytes 10 @ int64_bytes (scast x))"
  by (simp add: hash_input_def hashType_bytes_def hashType_def isNumber_def bindE_def
        as_int64_def)

text \<open>
  What holds of the numeric path: a double with an integral value in the range of
  \<^verbatim>\<open>int64_t\<close> is hashed as that integer, a 32-bit integer as its sign extension,
  not-a-number as 0, a double below \<open>-2\<^sup>6\<^sup>3\<close> as the least and a double above
  \<open>2\<^sup>6\<^sup>3\<close> as the greatest 64-bit integer.
\<close>

lemma hash_numeric_path:
  "INT64_MIN \<le> i \<Longrightarrow> i \<le> INT64_MAX \<Longrightarrow>
     hash md5 (Some (BDouble (Finite (of_int i)))) = hash md5 (Some (BInt64 (word_of_int i)))"
  "hash md5 (Some (BInt32 x)) = hash md5 (Some (BInt64 (scast x)))"
  "hash md5 (Some (BDouble NaN)) = hash md5 (Some (BInt64 0))"
  "q < - (2 ^ 63) \<Longrightarrow>
     hash md5 (Some (BDouble (Finite q))) = hash md5 (Some (BInt64 (word_of_int INT64_MIN)))"
  "hash md5 (Some (BDouble NegInf)) = hash md5 (Some (BInt64 (word_of_int INT64_MIN)))"
  "2 ^ 63 < q \<Longrightarrow>
     hash md5 (Some (BDouble (Finite q))) = hash md5 (Some (BInt64 (word_of_int INT64_MAX)))"
  "hash md5 (Some (BDouble PosInf)) = hash md5 (Some (BInt64 (word_of_int INT64_MAX)))"
  by (simp_all add: hash_def hash_input_double hash_input_int64 hash_input_int32
        hash_double_integral hash_double_NaN hash_double_below hash_double_above bindE_def)

text \<open>
  Claim C6 at the double \<open>2\<^sup>6\<^sup>3\<close>.  The bound \<^verbatim>\<open>(double) INT64_MAX\<close> is \<open>2\<^sup>6\<^sup>3\<close>, since
  \<open>2\<^sup>6\<^sup>3 - 1\<close> has no exact double.  The double \<open>2\<^sup>6\<^sup>3\<close> is greater than every 64-bit
  integer, yet it is not greater than that bound: it is not replaced by the greatest
  integer but converted, and the conversion of a value out of range is undefined.
\<close>

theorem hash_double_2_63_is_not_saturated:
  "double_of_int INT64_MAX = 2 ^ 63
   \<and> dbl_less (Finite (of_int INT64_MAX)) (Finite (2 ^ 63))
   \<and> hash_double (Finite (2 ^ 63)) = Inl UndefinedBehaviour
   \<and> hash_input (Some (BDouble (Finite (2 ^ 63)))) = Inl UndefinedBehaviour
   \<and> hash_input (Some (BDouble (Finite (2 ^ 63))))
       \<noteq> hash_input (Some (BInt64 (word_of_int INT64_MAX)))"
  unfolding hash_input_double hash_input_int64 hash_double_2_63 double_of_INT64_MAX
  by (simp add: bindE_def INT64_MAX_def)

subsection \<open>Reply batches\<close>

lemma feed_loop_stop: "\<not> feed_cond s \<Longrightarrow> feed_loop s = s"
  by (simp add: feed_loop.simps)

lemma feed_loop_continue:
  "feed_cond s \<Longrightarrow> feed_body s = Continue s' \<Longrightarrow> feed_loop s = feed_loop s'"
  by (simp add: feed_loop.simps)

lemma feed_loop_break:
  "feed_cond s \<Longrightarrow> feed_body s = Break s' \<Longrightarrow> feed_loop s = s'"
  by (simp add: feed_loop.simps)

lemmas feed_eval_defs =
  feed_def feed_cond_def feed_body_def atEnd_def get_doc_def advance_def close_ds_def
  queryError_def FixedDataSource_def new_datasource_def generateID_def setId_def
  rawSize_def MAX_SIZE_def SIZE_INF_def header_size_def Let_def
  handle_query_def handle_get_more_def cursor_insert_def cursor_erase_def cursor_find_def
  new_session_def failing_items_def QUERY_FAILURE_def CURSOR_NOT_FOUND_def initial_cnt_def

lemma closing_query_eval:
  "closing_query =
     (\<lparr>r_size = 48, r_responseTo = 7, r_flags = 0, r_cursorID = 0, r_startingFrom = 0,
       r_numberReturned = 1, r_documents = [[(''a'', BInt32 1)]]\<rparr>,
      \<lparr>s_gid = 2, cursors = Map.empty\<rparr>)"
  unfolding closing_query_def
  by (simp add: feed_eval_defs feed_loop.simps)

lemma keeping_query_eval:
  "keeping_query =
     (\<lparr>r_size = 48, r_responseTo = 7, r_flags = 0, r_cursorID = 1, r_startingFrom = 0,
       r_numberReturned = 1, r_documents = [[(''a'', BInt32 1)]]\<rparr>,
      \<lparr>s_gid = 2,
       cursors = [1 \<mapsto> \<lparr>ds_id = 1, ds_pos = 0, ds_closed = False, ds_flags = 2,
                         ds_items = [([(''$err'', BString ''boom'')], None)]\<rparr>]\<rparr>)"
  unfolding keeping_query_def
  by (simp add: feed_eval_defs feed_loop.simps)

lemma closing_get_more_eval:
  "fst closing_get_more =
     \<lparr>r_size = 36, r_responseTo = 8, r_flags = CURSOR_NOT_FOUND, r_cursorID = 0,
      r_startingFrom = 0, r_numberReturned = 0, r_documents = []\<rparr>"
  unfolding closing_get_more_def closing_query_eval
  by (simp add: feed_eval_defs feed_loop.simps)

lemma keeping_get_more_eval:
  "fst keeping_get_more =
     \<lparr>r_size = 56, r_responseTo = 8, r_flags = QUERY_FAILURE, r_cursorID = 0,
      r_startingFrom = 0, r_numberReturned = 1,
      r_documents = [[(''$err'', BString ''boom'')]]\<rparr>"
  unfolding keeping_get_more_def keeping_query_eval
  by (simp add: feed_eval_defs feed_loop.simps)

subsection \<open>What the loop of \<^verbatim>\<open>feed\<close> does up to a failing fetch\<close>

lemma feed_body_emit:
  assumes "ds_items (fs_datasource s) = (d, None) # rest"
  shows "feed_body s =
           Continue (s\<lparr>fs_datasource := (fs_datasource s)\<lparr>ds_pos := ds_pos (fs_datasource s) + 1,
                                                        ds_items := rest\<rparr>,
                       fs_documents := fs_documents s @ [d],
                       fs_size := fs_size s + rawSize d,
                       fs_retcnt := fs_retcnt s + 1,
                       fs_cnt := (if fs_cnt s \<noteq> SIZE_INF then fs_cnt s - 1 else fs_cnt s)\<rparr>)"
  using assms by (simp add: feed_body_def advance_def get_doc_def Let_def)

lemma feed_cond_head:
  assumes "ds_items (fs_datasource s) = (d, e) # rest"
  shows "feed_cond s \<longleftrightarrow> fs_size s + rawSize d < MAX_SIZE \<and> fs_cnt s \<noteq> 0"
  using assms by (simp add: feed_cond_def atEnd_def get_doc_def)

lemma feed_cond_end:
  assumes "ds_items (fs_datasource s) = []"
  shows "\<not> feed_cond s"
  using assms by (simp add: feed_cond_def atEnd_def)

lemma feed_loop_prefix:
  assumes "ds_items (fs_datasource s) = map (\<lambda>d. (d, None)) docs @ rest"
      and "length docs \<le> fs_cnt s" and "fs_cnt s \<le> SIZE_INF"
      and "fs_size s + sum_list (map rawSize docs) < MAX_SIZE"
  shows "feed_loop s = feed_loop (emitted docs rest s)"
  using assms
proof (induction docs arbitrary: s)
  case Nil
  have "emitted [] rest s = s" using Nil.prems(1) by (simp add: emitted_def)
  then show ?case by simp
next
  case (Cons d docs)
  let ?s1 = "s\<lparr>fs_datasource := (fs_datasource s)\<lparr>ds_pos := ds_pos (fs_datasource s) + 1,
                                               ds_items := map (\<lambda>d. (d, None)) docs @ rest\<rparr>,
              fs_documents := fs_documents s @ [d],
              fs_size := fs_size s + rawSize d,
              fs_retcnt := fs_retcnt s + 1,
              fs_cnt := (if fs_cnt s \<noteq> SIZE_INF then fs_cnt s - 1 else fs_cnt s)\<rparr>"
  have items: "ds_items (fs_datasource s) = (d, None) # (map (\<lambda>d. (d, None)) docs @ rest)"
    using Cons.prems(1) by simp
  have cond: "feed_cond s"
    unfolding feed_cond_head [OF items] using Cons.prems(2,4) by simp
  have body: "feed_body s = Continue ?s1" by (rule feed_body_emit [OF items])
  have step: "feed_loop s = feed_loop ?s1" by (rule feed_loop_continue [OF cond body])
  have "feed_loop ?s1 = feed_loop (emitted docs rest ?s1)"
  proof (rule Cons.IH)
    show "ds_items (fs_datasource ?s1) = map (\<lambda>d. (d, None)) docs @ rest" by simp
    show "length docs \<le> fs_cnt ?s1" using Cons.prems(2) by (simp, arith)
    show "fs_cnt ?s1 \<le> SIZE_INF" using Cons.prems(3) by (simp, arith)
    show "fs_size ?s1 + sum_list (map rawSize docs) < MAX_SIZE" using Cons.prems(4) by simp
  qed
  moreover have "emitted docs rest ?s1 = emitted (d # docs) rest s"
    using Cons.prems(2,3) by (auto simp: emitted_def ac_simps)
  ultimately show ?case using step by simp
qed

lemma feed_body_throw:
  assumes "ds_items (fs_datasource s) = (d, Some msg) # rest"
  shows "feed_body s =
           (if fs_retcnt s \<noteq> 0
            then Break (s\<lparr>fs_datasource := error_datasource (ds_id (fs_datasource s)) msg,
                          fs_err := True, fs_gid := fs_gid s + 1\<rparr>)
            else Continue (s\<lparr>fs_datasource := error_datasource (ds_id (fs_datasource s)) msg,
                             fs_err := True, fs_gid := fs_gid s + 1,
                             fs_flags := fs_flags s OR QUERY_FAILURE\<rparr>))"
  using assms
  by (simp add: feed_body_def advance_def get_doc_def Let_def queryError_def
        FixedDataSource_def new_datasource_def generateID_def setId_def error_datasource_def
        error_document_def)

lemma feed_loop_mid_batch:
  assumes items: "ds_items ds = map (\<lambda>d. (d, None)) docs @ (d, Some msg) # rest"
      and ne: "docs \<noteq> []"
      and cnt: "length docs < c" "c \<le> SIZE_INF"
      and size: "header_size + sum_list (map rawSize docs) + rawSize d < MAX_SIZE"
  shows "feed_loop \<lparr>fs_datasource = ds, fs_err = False, fs_gid = g, fs_flags = fl,
                     fs_documents = [], fs_size = header_size, fs_cnt = c, fs_retcnt = 0\<rparr>
         = \<lparr>fs_datasource = error_datasource (ds_id ds) msg, fs_err = True, fs_gid = g + 1,
            fs_flags = fl, fs_documents = docs,
            fs_size = header_size + sum_list (map rawSize docs),
            fs_cnt = (if c \<noteq> SIZE_INF then c - length docs else c),
            fs_retcnt = length docs\<rparr>"
proof -
  let ?s0 = "\<lparr>fs_datasource = ds, fs_err = False, fs_gid = g, fs_flags = fl,
              fs_documents = [], fs_size = header_size, fs_cnt = c, fs_retcnt = 0\<rparr>"
  let ?s1 = "emitted docs ((d, Some msg) # rest) ?s0"
  have "feed_loop ?s0 = feed_loop ?s1"
    by (rule feed_loop_prefix) (use items cnt size in simp_all)
  moreover have it1: "ds_items (fs_datasource ?s1) = (d, Some msg) # rest"
    by (simp add: emitted_def)
  have cond: "feed_cond ?s1"
    unfolding feed_cond_head [OF it1] using cnt size by (auto simp: emitted_def)
  have body: "feed_body ?s1
                = Break (?s1\<lparr>fs_datasource := error_datasource (ds_id (fs_datasource ?s1)) msg,
                              fs_err := True, fs_gid := fs_gid ?s1 + 1\<rparr>)"
    unfolding feed_body_throw [OF it1] using ne by (simp add: emitted_def)
  note feed_loop_break [OF cond body]
  ultimately show ?thesis by (simp add: emitted_def)
qed

lemma feed_loop_first_fetch:
  assumes items: "ds_items ds = (d, Some msg) # rest"
      and cnt: "0 < c" "c \<le> SIZE_INF"
      and size: "header_size + rawSize d < MAX_SIZE"
              "header_size + rawSize (error_document msg) < MAX_SIZE"
  shows "feed_loop \<lparr>fs_datasource = ds, fs_err = False, fs_gid = g, fs_flags = fl,
                     fs_documents = [], fs_size = header_size, fs_cnt = c, fs_retcnt = 0\<rparr>
         = \<lparr>fs_datasource = (error_datasource (ds_id ds) msg)\<lparr>ds_pos := 1, ds_items := []\<rparr>,
            fs_err = True, fs_gid = g + 1,
            fs_flags = fl OR QUERY_FAILURE, fs_documents = [error_document msg],
            fs_size = header_size + rawSize (error_document msg),
            fs_cnt = (if c \<noteq> SIZE_INF then c - 1 else c),
            fs_retcnt = 1\<rparr>"
proof -
  let ?s0 = "\<lparr>fs_datasource = ds, fs_err = False, fs_gid = g, fs_flags = fl,
              fs_documents = [], fs_size = header_size, fs_cnt = c, fs_retcnt = 0\<rparr>"
  let ?s1 = "?s0\<lparr>fs_datasource := error_datasource (ds_id (fs_datasource ?s0)) msg,
                  fs_err := True, fs_gid := fs_gid ?s0 + 1,
                  fs_flags := fs_flags ?s0 OR QUERY_FAILURE\<rparr>"
  let ?s2 = "emitted [error_document msg] [] ?s1"
  have it0: "ds_items (fs_datasource ?s0) = (d, Some msg) # rest" using items by simp
  have cond0: "feed_cond ?s0" unfolding feed_cond_head [OF it0] using cnt size by simp
  have body0: "feed_body ?s0 = Continue ?s1" unfolding feed_body_throw [OF it0] by simp
  have "feed_loop ?s0 = feed_loop ?s1" by (rule feed_loop_continue [OF cond0 body0])
  also have "\<dots> = feed_loop ?s2"
    by (rule feed_loop_prefix) (use cnt size in \<open>simp_all add: error_datasource_def\<close>)
  also have "\<dots> = ?s2"
    by (rule feed_loop_stop, rule feed_cond_end) (simp add: emitted_def)
  finally show ?thesis by (simp add: emitted_def error_datasource_def)
qed

lemma initial_cnt_le: "batchSize \<le> SIZE_INF \<Longrightarrow> initial_cnt count batchSize \<le> SIZE_INF"
  by (simp add: initial_cnt_def Let_def)

lemma initial_cnt_one: "initial_cnt 1 batchSize \<le> 1"
  by (simp add: initial_cnt_def Let_def)

text \<open>
  A fetch that fails after documents have been put into the batch: the reply holds these
  documents and the flags of the datasource, and an error datasource with the same
  identifier takes its place.  When the cursor is kept (\<open>count\<close> is not negative) the reply
  names the identifier and the error datasource is returned open; when the batch closes
  the cursor (\<open>count\<close> is negative) the reply names no cursor and the error datasource is
  returned closed.
\<close>

lemma feed_mid_batch_failure:
  assumes items: "ds_items ds = map (\<lambda>d. (d, None)) docs @ (d, Some msg) # rest"
      and ne: "docs \<noteq> []"
      and cnt: "length docs < initial_cnt count batchSize" "batchSize \<le> SIZE_INF"
      and size: "header_size + sum_list (map rawSize docs) + rawSize d < MAX_SIZE"
  shows "feed g batchSize reqID (Some ds) count =
           \<lparr>fr_reply = \<lparr>r_size = of_nat (header_size + sum_list (map rawSize docs)),
                         r_responseTo = reqID, r_flags = ds_flags ds,
                         r_cursorID = (if count < 0 then 0 else ds_id ds),
                         r_startingFrom = ucast (ds_pos ds),
                         r_numberReturned = of_nat (length docs),
                         r_documents = docs\<rparr>,
            fr_datasource = Some ((error_datasource (ds_id ds) msg)\<lparr>ds_closed := count < 0\<rparr>),
            fr_replaced = True, fr_gid = g + 1\<rparr>"
proof -
  have c1: "count \<noteq> 1"
  proof
    assume "count = 1"
    with cnt(1) have "length docs < initial_cnt 1 batchSize" by simp
    with initial_cnt_one [of batchSize] have "\<not> 0 < length docs" by linarith
    with ne show False by simp
  qed
  note loop = feed_loop_mid_batch [OF items ne cnt(1) initial_cnt_le [OF cnt(2)] size]
  show ?thesis
    unfolding feed_def option.case Let_def loop
    using c1 by (simp add: atEnd_def error_datasource_def close_ds_def)
qed

text \<open>A fetch that fails before any document has been put into the batch: the reply holds
  the error document and the failure flag.\<close>

lemma feed_first_fetch_failure:
  assumes items: "ds_items ds = (d, Some msg) # rest"
      and cnt: "0 < initial_cnt count batchSize" "batchSize \<le> SIZE_INF"
      and size: "header_size + rawSize d < MAX_SIZE"
              "header_size + rawSize (error_document msg) < MAX_SIZE"
  shows "fr_reply (feed g batchSize reqID (Some ds) count) =
           \<lparr>r_size = of_nat (header_size + rawSize (error_document msg)),
            r_responseTo = reqID, r_flags = ds_flags ds OR QUERY_FAILURE,
            r_cursorID = 0, r_startingFrom = ucast (ds_pos ds), r_numberReturned = 1,
            r_documents = [error_document msg]\<rparr>"
proof -
  note loop = feed_loop_first_fetch [OF items cnt(1) initial_cnt_le [OF cnt(2)] size]
  show ?thesis
    unfolding feed_def option.case Let_def loop
    by (simp add: atEnd_def)
qed

text \<open>Feeding an error datasource: the reply holds the error document and the failure
  flag, and the cursor ends.\<close>

lemma feed_error_datasource:
  assumes cnt: "0 < initial_cnt count batchSize" "batchSize \<le> SIZE_INF"
      and size: "header_size + rawSize (error_document msg) < MAX_SIZE"
  shows "fr_reply (feed g batchSize reqID (Some (error_datasource i msg)) count) =
           \<lparr>r_size = of_nat (header_size + rawSize (error_document msg)),
            r_responseTo = reqID, r_flags = QUERY_FAILURE,
            r_cursorID = 0, r_startingFrom = 0, r_numberReturned = 1,
            r_documents = [error_document msg]\<rparr>"
proof -
  let ?s0 = "\<lparr>fs_datasource = error_datasource i msg, fs_err = False, fs_gid = g,
              fs_flags = ds_flags (error_datasource i msg),
              fs_documents = [], fs_size = header_size,
              fs_cnt = initial_cnt count batchSize, fs_retcnt = 0\<rparr>"
  let ?s1 = "emitted [error_document msg] [] ?s0"
  have "feed_loop ?s0 = feed_loop ?s1"
    by (rule feed_loop_prefix)
       (use cnt size initial_cnt_le [OF cnt(2)] in \<open>simp_all add: error_datasource_def\<close>)
  also have "\<dots> = ?s1"
    by (rule feed_loop_stop, rule feed_cond_end) (simp add: emitted_def)
  finally have loop: "feed_loop ?s0 = ?s1" .
  show ?thesis
    unfolding feed_def option.case Let_def loop
    by (simp add: atEnd_def emitted_def error_datasource_def)
qed

text \<open>
  The two handlers on such a failure.  A query whose datasource fails after documents
  have been put into the batch keeps the error datasource under the identifier of the
  datasource when the cursor is kept, and keeps nothing when the batch closes the cursor;
  a request for more on an identifier that holds an error datasource replies with the
  error document and the failure flag.
\<close>

lemma handle_query_mid_batch_failure:
  assumes items: "items = map (\<lambda>d. (d, None)) docs @ (d, Some msg) # rest"
      and ne: "docs \<noteq> []"
      and cnt: "length docs < initial_cnt count batchSize" "batchSize \<le> SIZE_INF"
      and size: "header_size + sum_list (map rawSize docs) + rawSize d < MAX_SIZE"
  shows "r_documents (fst (handle_query batchSize reqID fl items count st)) = docs"
    and "r_flags (fst (handle_query batchSize reqID fl items count st)) = fl"
    and "r_cursorID (fst (handle_query batchSize reqID fl items count st))
           = (if count < 0 then 0 else s_gid st + 1)"
    and "cursors (snd (handle_query batchSize reqID fl items count st))
           = (if count < 0 then cursors st
              else (cursors st)(s_gid st + 1 \<mapsto> error_datasource (s_gid st + 1) msg))"
proof -
  let ?ds = "\<lparr>ds_id = s_gid st + 1, ds_pos = 0, ds_closed = False, ds_flags = fl,
              ds_items = items\<rparr>"
  have it: "ds_items ?ds = map (\<lambda>d. (d, None)) docs @ (d, Some msg) # rest"
    using items by simp
  note f = feed_mid_batch_failure [OF it ne cnt size]
  have hq: "handle_query batchSize reqID fl items count st =
          (fr_reply (feed (s_gid st + 1) batchSize reqID (Some ?ds) count),
           st\<lparr>s_gid := fr_gid (feed (s_gid st + 1) batchSize reqID (Some ?ds) count),
              cursors := (case fr_datasource (feed (s_gid st + 1) batchSize reqID (Some ?ds) count) of
                            None \<Rightarrow> cursors st
                          | Some d \<Rightarrow> if ds_closed d then cursors st
                                      else cursor_insert d (cursors st))\<rparr>)"
    by (simp add: handle_query_def new_datasource_def generateID_def Let_def)
  show "r_documents (fst (handle_query batchSize reqID fl items count st)) = docs"
    unfolding hq f by simp
  show "r_flags (fst (handle_query batchSize reqID fl items count st)) = fl"
    unfolding hq f by simp
  show "r_cursorID (fst (handle_query batchSize reqID fl items count st))
          = (if count < 0 then 0 else s_gid st + 1)"
    unfolding hq f by simp
  show "cursors (snd (handle_query batchSize reqID fl items count st))
          = (if count < 0 then cursors st
             else (cursors st)(s_gid st + 1 \<mapsto> error_datasource (s_gid st + 1) msg))"
    unfolding hq f by (simp add: cursor_insert_def error_datasource_def)
qed

lemma handle_get_more_error_datasource:
  assumes stash: "cursors st i = Some (error_datasource i msg)"
      and cnt: "0 < initial_cnt count batchSize" "batchSize \<le> SIZE_INF"
      and size: "header_size + rawSize (error_document msg) < MAX_SIZE"
  shows "r_documents (fst (handle_get_more batchSize reqID i count st)) = [error_document msg]"
    and "r_flags (fst (handle_get_more batchSize reqID i count st)) = QUERY_FAILURE"
proof -
  have found: "cursor_find i (cursors st) = Some (error_datasource i msg)"
    using stash by (simp add: cursor_find_def error_datasource_def)
  note f = feed_error_datasource [OF cnt size, of "s_gid st" reqID i]
  have "fst (handle_get_more batchSize reqID i count st)
          = fr_reply (feed (s_gid st) batchSize reqID (Some (error_datasource i msg)) count)"
    by (simp add: handle_get_more_def Let_def found)
  then show "r_documents (fst (handle_get_more batchSize reqID i count st)) = [error_document msg]"
    and "r_flags (fst (handle_get_more batchSize reqID i count st)) = QUERY_FAILURE"
    unfolding f by simp_all
qed

subsection \<open>Identifiers through \<^verbatim>\<open>feed\<close>\<close>

lemma feed_body_id:
  assumes "feed_body s = Continue s' \<or> feed_body s = Break s'"
  shows "ds_id (fs_datasource s') = ds_id (fs_datasource s)"
    and "\<not> ds_closed (fs_datasource s) \<Longrightarrow> \<not> ds_closed (fs_datasource s')"
  using assms
  by (auto simp: feed_body_def advance_def Let_def queryError_def FixedDataSource_def
        new_datasource_def generateID_def setId_def
        split: list.splits option.splits prod.splits if_splits)

lemma feed_loop_id:
  "ds_id (fs_datasource (feed_loop s)) = ds_id (fs_datasource s)
   \<and> (\<not> ds_closed (fs_datasource s) \<longrightarrow> \<not> ds_closed (fs_datasource (feed_loop s)))"
proof (induction s rule: feed_loop.induct)
  case (1 s)
  show ?case
  proof (cases "feed_cond s")
    case False
    then show ?thesis by (simp add: feed_loop_stop)
  next
    case True
    show ?thesis
    proof (cases "feed_body s")
      case (Continue s')
      from 1 [OF True Continue] feed_body_id [of s s'] Continue
      show ?thesis unfolding feed_loop_continue [OF True Continue] by simp
    next
      case (Break s')
      from feed_body_id [of s s'] Break
      show ?thesis unfolding feed_loop_break [OF True Break] by simp
    qed
  qed
qed

lemma feed_keeps_id:
  assumes "\<not> ds_closed ds"
  shows "\<exists>ds'. fr_datasource (feed g batchSize reqID (Some ds) count) = Some ds'
           \<and> ds_id ds' = ds_id ds
           \<and> r_cursorID (fr_reply (feed g batchSize reqID (Some ds) count))
               = (if ds_closed ds' then 0 else ds_id ds)"
proof -
  let ?s0 = "\<lparr>fs_datasource = ds, fs_err = False, fs_gid = g, fs_flags = ds_flags ds,
              fs_documents = [], fs_size = header_size,
              fs_cnt = initial_cnt count batchSize, fs_retcnt = 0\<rparr>"
  from feed_loop_id [of ?s0] assms
  have "ds_id (fs_datasource (feed_loop ?s0)) = ds_id ds"
    and "\<not> ds_closed (fs_datasource (feed_loop ?s0))" by simp_all
  then show ?thesis by (simp add: feed_def Let_def close_ds_def)
qed

text \<open>
  Claim C7 on a cursor that is closed with its batch.  The datasource yields one document
  and fails on fetching the second.  With \<open>nToReturn = -2\<close> the reply holds the first
  document, no failure flag and the cursor identifier 0; the error datasource made for
  the failure is closed with the batch and no cursor is kept, so that a request for more
  on the identifier of the datasource finds no cursor and the error is never reported.
  With \<open>nToReturn = 2\<close> the same failure is kept under the identifier and reported by the
  next request.
\<close>

theorem feed_drops_error_of_closing_batch:
  "r_documents (fst closing_query) = [[(''a'', BInt32 1)]]
   \<and> r_flags (fst closing_query) AND QUERY_FAILURE = 0
   \<and> r_cursorID (fst closing_query) = 0
   \<and> cursors (snd closing_query) 1 = None
   \<and> r_flags (fst closing_get_more) = CURSOR_NOT_FOUND
   \<and> r_documents (fst closing_get_more) = []
   \<and> r_documents (fst keeping_query) = [[(''a'', BInt32 1)]]
   \<and> r_cursorID (fst keeping_query) = 1
   \<and> r_flags (fst keeping_get_more) = QUERY_FAILURE
   \<and> r_documents (fst keeping_get_more) = [[(''$err'', BString ''boom'')]]"
  unfolding closing_query_eval closing_get_more_eval keeping_query_eval keeping_get_more_eval
  by simp

subsection \<open>Identifiers of datasources and of the cursors in replies\<close>

lemma feed_loop_clean_gid:
  "\<forall>x\<in>set (ds_items (fs_datasource s)). snd x = None \<Longrightarrow> fs_gid (feed_loop s) = fs_gid s"
proof (induction s rule: feed_loop.induct)
  case (1 s)
  show ?case
  proof (cases "feed_cond s")
    case False
    then show ?thesis by (simp add: feed_loop_stop)
  next
    case True
    then obtain d rest where items: "ds_items (fs_datasource s) = (d, None) # rest"
      using "1.prems"
      by (cases "ds_items (fs_datasource s)") (auto simp: feed_cond_def atEnd_def)
    note b = feed_body_emit [OF items]
    have "fs_gid (feed_loop s) = fs_gid (feed_loop
            (s\<lparr>fs_datasource := (fs_datasource s)\<lparr>ds_pos := ds_pos (fs_datasource s) + 1,
                                                   ds_items := rest\<rparr>,
               fs_documents := fs_documents s @ [d],
               fs_size := fs_size s + rawSize d,
               fs_retcnt := fs_retcnt s + 1,
               fs_cnt := (if fs_cnt s \<noteq> SIZE_INF then fs_cnt s - 1 else fs_cnt s)\<rparr>))"
      by (simp only: feed_loop_continue [OF True b])
    also have "\<dots> = fs_gid s"
      using "1.IH" [OF True b] "1.prems" items by simp
    finally show ?thesis .
  qed
qed

lemma feed_loop_gid:
  "fs_gid (feed_loop s) = fs_gid s \<or> fs_gid (feed_loop s) = fs_gid s + 1"
proof (induction s rule: feed_loop.induct)
  case (1 s)
  show ?case
  proof (cases "feed_cond s")
    case False
    then show ?thesis by (simp add: feed_loop_stop)
  next
    case True
    then obtain d e rest where items: "ds_items (fs_datasource s) = (d, e) # rest"
      by (cases "ds_items (fs_datasource s)") (auto simp: feed_cond_def atEnd_def)
    show ?thesis
    proof (cases e)
      case None
      note b = feed_body_emit [OF items [unfolded None]]
      from "1.IH" [OF True b] show ?thesis
        unfolding feed_loop_continue [OF True b] by simp
    next
      case (Some msg)
      note t = feed_body_throw [OF items [unfolded Some]]
      show ?thesis
      proof (cases "fs_retcnt s \<noteq> 0")
        case True
        with t have b: "feed_body s =
            Break (s\<lparr>fs_datasource := error_datasource (ds_id (fs_datasource s)) msg,
                     fs_err := True, fs_gid := fs_gid s + 1\<rparr>)" by simp
        show ?thesis unfolding feed_loop_break [OF \<open>feed_cond s\<close> b] by simp
      next
        case False
        with t have b: "feed_body s =
            Continue (s\<lparr>fs_datasource := error_datasource (ds_id (fs_datasource s)) msg,
                        fs_err := True, fs_gid := fs_gid s + 1,
                        fs_flags := fs_flags s OR QUERY_FAILURE\<rparr>)" by simp
        have "fs_gid (feed_loop
                (s\<lparr>fs_datasource := error_datasource (ds_id (fs_datasource s)) msg,
                   fs_err := True, fs_gid := fs_gid s + 1,
                   fs_flags := fs_flags s OR QUERY_FAILURE\<rparr>)) = fs_gid s + 1"
          by (subst feed_loop_clean_gid) (simp_all add: error_datasource_def)
        then show ?thesis unfolding feed_loop_continue [OF \<open>feed_cond s\<close> b] by simp
      qed
    qed
  qed
qed

lemma feed_gid:
  "fr_gid (feed g batchSize reqID dso count) = g
   \<or> fr_gid (feed g batchSize reqID dso count) = g + 1"
proof (cases dso)
  case None
  then show ?thesis by (simp add: feed_def)
next
  case (Some ds)
  let ?s0 = "\<lparr>fs_datasource = ds, fs_err = False, fs_gid = g, fs_flags = ds_flags ds,
              fs_documents = [], fs_size = header_size,
              fs_cnt = initial_cnt count batchSize, fs_retcnt = 0\<rparr>"
  from feed_loop_gid [of ?s0] Some show ?thesis by (simp add: feed_def Let_def)
qed

lemma unat_succ_64: "unat (g :: 64 word) + 1 < 2 ^ 64 \<Longrightarrow> unat (g + 1) = unat g + 1"
  using unat_add_lem [of g 1] by simp

lemma succ_nonzero_64: "unat (g :: 64 word) + 1 < 2 ^ 64 \<Longrightarrow> g + 1 \<noteq> 0"
  using unat_succ_64 [of g] by (metis Suc_eq_plus1 nat.distinct(1) unat_0)

lemma generateIDs_counter: "snd (generateIDs k g) = g + of_nat k"
proof (induction k arbitrary: g)
  case 0
  then show ?case by simp
next
  case (Suc k)
  have "snd (generateIDs (Suc k) g) = snd (generateIDs k (g + 1))"
    by (simp add: generateID_def split: prod.split)
  with Suc [of "g + 1"] show ?case by (simp add: algebra_simps)
qed

lemma unat_add_nat_64:
  "unat (g :: 64 word) + k < 2 ^ 64 \<Longrightarrow> unat (g + of_nat k) = unat g + k"
proof -
  assume a: "unat g + k < 2 ^ 64"
  then have k: "k < 2 ^ 64" by simp
  have uk: "unat (of_nat k :: 64 word) = k"
    using k by (simp add: unat_of_nat take_bit_nat_eq_self)
  from a uk unat_add_lem [of g "of_nat k :: 64 word"] show ?thesis by simp
qed

text \<open>What a query does to the session: the datasource gets the next identifier, and
  the cursor map gains it unless it comes back closed.\<close>

lemma handle_query_cases:
  obtains ds' g' where
    "g' = s_gid st + 1 \<or> g' = s_gid st + 1 + 1"
    "ds_id ds' = s_gid st + 1"
    "r_cursorID (fst (handle_query batchSize reqID fl items n st))
       = (if ds_closed ds' then 0 else s_gid st + 1)"
    "snd (handle_query batchSize reqID fl items n st)
       = st\<lparr>s_gid := g',
            cursors := (if ds_closed ds' then cursors st
                        else (cursors st)(s_gid st + 1 \<mapsto> ds'))\<rparr>"
proof -
  let ?ds = "\<lparr>ds_id = s_gid st + 1, ds_pos = 0, ds_closed = False, ds_flags = fl,
              ds_items = items\<rparr>"
  let ?f = "feed (s_gid st + 1) batchSize reqID (Some ?ds) n"
  have nd: "new_datasource (s_gid st) fl items = (?ds, s_gid st + 1)"
    by (simp add: new_datasource_def generateID_def)
  have "\<not> ds_closed ?ds" by simp
  from feed_keeps_id [OF this, of "s_gid st + 1" batchSize reqID n]
  obtain ds' where ds': "fr_datasource ?f = Some ds'" "ds_id ds' = s_gid st + 1"
      "r_cursorID (fr_reply ?f) = (if ds_closed ds' then 0 else s_gid st + 1)"
    by auto
  have g: "fr_gid ?f = s_gid st + 1 \<or> fr_gid ?f = s_gid st + 1 + 1"
    by (rule feed_gid)
  have r: "r_cursorID (fst (handle_query batchSize reqID fl items n st))
             = (if ds_closed ds' then 0 else s_gid st + 1)"
    using ds'(3) by (simp add: handle_query_def nd Let_def)
  have s: "snd (handle_query batchSize reqID fl items n st)
             = st\<lparr>s_gid := fr_gid ?f,
                  cursors := (if ds_closed ds' then cursors st
                              else (cursors st)(s_gid st + 1 \<mapsto> ds'))\<rparr>"
    using ds'(1,2) by (simp add: handle_query_def nd Let_def cursor_insert_def)
  from g ds'(2) r s show thesis by (rule that)
qed

lemma handle_get_more_missing:
  assumes "cursor_find c (cursors st) = None"
  shows "r_cursorID (fst (handle_get_more batchSize reqID c n st)) = 0"
    and "snd (handle_get_more batchSize reqID c n st) = st"
  using assms by (simp_all add: handle_get_more_def feed_def Let_def)

lemma handle_get_more_cases:
  assumes found: "cursor_find c (cursors st) = Some ds" and opened: "\<not> ds_closed ds"
  obtains ds' g' where
    "g' = s_gid st \<or> g' = s_gid st + 1"
    "ds_id ds' = c"
    "r_cursorID (fst (handle_get_more batchSize reqID c n st))
       = (if ds_closed ds' then 0 else c)"
    "snd (handle_get_more batchSize reqID c n st)
       = st\<lparr>s_gid := g',
            cursors := (if ds_closed ds' then (cursors st)(c := None)
                        else (cursors st)(c \<mapsto> ds'))\<rparr>"
proof -
  let ?f = "feed (s_gid st) batchSize reqID (Some ds) n"
  from found have id: "ds_id ds = c"
    by (auto simp: cursor_find_def split: option.splits if_splits)
  from feed_keeps_id [OF opened, of "s_gid st" batchSize reqID n]
  obtain ds' where ds': "fr_datasource ?f = Some ds'" "ds_id ds' = c"
      "r_cursorID (fr_reply ?f) = (if ds_closed ds' then 0 else c)"
    using id by auto
  have g: "fr_gid ?f = s_gid st \<or> fr_gid ?f = s_gid st + 1"
    by (rule feed_gid)
  have r: "r_cursorID (fst (handle_get_more batchSize reqID c n st))
             = (if ds_closed ds' then 0 else c)"
    using ds'(3) found by (simp add: handle_get_more_def Let_def)
  have s: "snd (handle_get_more batchSize reqID c n st)
             = st\<lparr>s_gid := fr_gid ?f,
                  cursors := (if ds_closed ds' then (cursors st)(c := None)
                              else (cursors st)(c \<mapsto> ds'))\<rparr>"
    using ds'(1,2) found
    by (simp add: handle_get_more_def Let_def cursor_insert_def cursor_erase_def)
  from g ds'(2) r s show thesis by (rule that)
qed

lemma handle_kill_cursors_sub:
  "cursors (handle_kill_cursors ids st) i = Some ds \<Longrightarrow> cursors st i = Some ds"
proof (induction ids arbitrary: st)
  case Nil
  then show ?case by simp
next
  case (Cons c ids)
  from Cons.IH [OF Cons.prems [simplified]] show ?case
    by (auto simp: cursor_erase_def split: option.splits if_splits)
qed

lemma handle_kill_cursors_gid: "s_gid (handle_kill_cursors ids st) = s_gid st"
  by (induction ids arbitrary: st) (simp_all split: option.splits)

lemma session_step_query:
  assumes ok: "cursors_ok st" and room: "unat (s_gid st) + 2 < 2 ^ 64"
  shows "cursors_ok (snd (handle_query batchSize reqID fl items n st))"
    and "unat (s_gid (snd (handle_query batchSize reqID fl items n st))) \<le> unat (s_gid st) + 2"
    and "step_ok (Query reqID fl items n) st
           (Some (fst (handle_query batchSize reqID fl items n st)))
           (snd (handle_query batchSize reqID fl items n st))"
proof -
  let ?g = "s_gid st"
  obtain ds' g' where h: "g' = ?g + 1 \<or> g' = ?g + 1 + 1" "ds_id ds' = ?g + 1"
      "r_cursorID (fst (handle_query batchSize reqID fl items n st))
         = (if ds_closed ds' then 0 else ?g + 1)"
      "snd (handle_query batchSize reqID fl items n st)
         = st\<lparr>s_gid := g',
              cursors := (if ds_closed ds' then cursors st else (cursors st)(?g + 1 \<mapsto> ds'))\<rparr>"
    by (rule handle_query_cases)
  from room have u1: "unat (?g + 1) = unat ?g + 1" by (simp add: unat_succ_64)
  from room u1 have u2: "unat (?g + 1 + 1) = unat ?g + 2"
    using unat_succ_64 [of "?g + 1"] by simp
  from room have nz: "?g + 1 \<noteq> 0" by (simp add: succ_nonzero_64)
  from h(1) u1 u2 have g': "unat ?g + 1 \<le> unat g'" "unat g' \<le> unat ?g + 2" by auto
  have fresh: "cursors st (?g + 1) = None"
  proof (cases "cursors st (?g + 1)")
    case None
    then show ?thesis .
  next
    case (Some d)
    with ok have "unat (?g + 1) \<le> unat ?g" by (simp add: cursors_ok_def)
    with u1 show ?thesis by simp
  qed
  show "cursors_ok (snd (handle_query batchSize reqID fl items n st))"
    unfolding h(4) cursors_ok_def
  proof (intro allI impI)
    fix i ds
    assume a: "cursors (st\<lparr>s_gid := g',
                 cursors := (if ds_closed ds' then cursors st
                             else (cursors st)(?g + 1 \<mapsto> ds'))\<rparr>) i = Some ds"
    show "ds_id ds = i \<and> i \<noteq> 0 \<and> \<not> ds_closed ds
            \<and> unat i \<le> unat (s_gid (st\<lparr>s_gid := g',
                 cursors := (if ds_closed ds' then cursors st
                             else (cursors st)(?g + 1 \<mapsto> ds'))\<rparr>))"
    proof (cases "\<not> ds_closed ds' \<and> i = ?g + 1")
      case True
      with a have "ds = ds'" by simp
      with True h(2) nz u1 g' show ?thesis by simp
    next
      case False
      with a have "cursors st i = Some ds" by (auto split: if_splits)
      with ok have "ds_id ds = i \<and> i \<noteq> 0 \<and> \<not> ds_closed ds \<and> unat i \<le> unat ?g"
        by (simp add: cursors_ok_def)
      with g' show ?thesis by simp
    qed
  qed
  show "unat (s_gid (snd (handle_query batchSize reqID fl items n st))) \<le> unat ?g + 2"
    unfolding h(4) using g' by simp
  show "step_ok (Query reqID fl items n) st
          (Some (fst (handle_query batchSize reqID fl items n st)))
          (snd (handle_query batchSize reqID fl items n st))"
    unfolding step_ok_def h(4) using h(2,3) fresh nz
    by (auto split: if_splits)
qed

lemma session_step_get_more:
  assumes ok: "cursors_ok st" and room: "unat (s_gid st) + 1 < 2 ^ 64"
  shows "cursors_ok (snd (handle_get_more batchSize reqID c n st))"
    and "unat (s_gid (snd (handle_get_more batchSize reqID c n st))) \<le> unat (s_gid st) + 1"
    and "step_ok (GetMore reqID c n) st
           (Some (fst (handle_get_more batchSize reqID c n st)))
           (snd (handle_get_more batchSize reqID c n st))"
proof -
  let ?g = "s_gid st"
  let ?r = "fst (handle_get_more batchSize reqID c n st)"
  let ?st' = "snd (handle_get_more batchSize reqID c n st)"
  have "cursors_ok ?st' \<and> unat (s_gid ?st') \<le> unat ?g + 1
          \<and> step_ok (GetMore reqID c n) st (Some ?r) ?st'"
  proof (cases "cursor_find c (cursors st)")
    case None
    from handle_get_more_missing [OF None, where batchSize = batchSize and reqID = reqID and n = n] ok
    show ?thesis by (simp add: step_ok_def)
  next
    case (Some ds)
    then have at: "cursors st c = Some ds"
      by (auto simp: cursor_find_def split: option.splits if_splits)
    with ok have opened: "\<not> ds_closed ds" and cnz: "c \<noteq> 0" and cle: "unat c \<le> unat ?g"
      by (auto simp: cursors_ok_def)
    obtain ds' g' where h: "g' = ?g \<or> g' = ?g + 1" "ds_id ds' = c"
        "r_cursorID ?r = (if ds_closed ds' then 0 else c)"
        "?st' = st\<lparr>s_gid := g',
                   cursors := (if ds_closed ds' then (cursors st)(c := None)
                               else (cursors st)(c \<mapsto> ds'))\<rparr>"
      by (rule handle_get_more_cases [OF Some opened])
    from room have u1: "unat (?g + 1) = unat ?g + 1" by (simp add: unat_succ_64)
    from h(1) u1 have g': "unat ?g \<le> unat g'" "unat g' \<le> unat ?g + 1" by auto
    have c1: "cursors_ok ?st'"
      unfolding h(4) cursors_ok_def
    proof (intro allI impI)
      fix i d
      assume a: "cursors (st\<lparr>s_gid := g',
                   cursors := (if ds_closed ds' then (cursors st)(c := None)
                               else (cursors st)(c \<mapsto> ds'))\<rparr>) i = Some d"
      show "ds_id d = i \<and> i \<noteq> 0 \<and> \<not> ds_closed d
              \<and> unat i \<le> unat (s_gid (st\<lparr>s_gid := g',
                   cursors := (if ds_closed ds' then (cursors st)(c := None)
                               else (cursors st)(c \<mapsto> ds'))\<rparr>))"
      proof (cases "i = c")
        case True
        with a have "\<not> ds_closed ds' \<and> d = ds'" by (auto split: if_splits)
        with True h(2) cnz cle g' show ?thesis by simp
      next
        case False
        with a have "cursors st i = Some d" by (auto split: if_splits)
        with ok have "ds_id d = i \<and> i \<noteq> 0 \<and> \<not> ds_closed d \<and> unat i \<le> unat ?g"
          by (simp add: cursors_ok_def)
        with g' show ?thesis by simp
      qed
    qed
    have c2: "unat (s_gid ?st') \<le> unat ?g + 1" unfolding h(4) using g' by simp
    have c3: "step_ok (GetMore reqID c n) st (Some ?r) ?st'"
      unfolding step_ok_def h(4) using h(2,3) at
      by (auto split: if_splits)
    from c1 c2 c3 show ?thesis by simp
  qed
  then show "cursors_ok ?st'" and "unat (s_gid ?st') \<le> unat ?g + 1"
    and "step_ok (GetMore reqID c n) st (Some ?r) ?st'" by simp_all
qed

lemma session_step_ok:
  assumes ok: "cursors_ok st" and room: "unat (s_gid st) + constructions req < 2 ^ 64"
  shows "cursors_ok (snd (session_step batchSize req st))
         \<and> unat (s_gid (snd (session_step batchSize req st)))
             \<le> unat (s_gid st) + constructions req
         \<and> step_ok req st (fst (session_step batchSize req st))
             (snd (session_step batchSize req st))"
proof (cases req)
  case (Query reqID fl items n)
  with room have r: "unat (s_gid st) + 2 < 2 ^ 64" by simp
  from session_step_query [OF ok r, where batchSize = batchSize and reqID = reqID and fl = fl
      and items = items and n = n] Query
  show ?thesis by (simp add: session_step_def case_prod_beta)
next
  case (GetMore reqID c n)
  with room have r: "unat (s_gid st) + 1 < 2 ^ 64" by simp
  from session_step_get_more [OF ok r, where batchSize = batchSize and reqID = reqID and c = c
      and n = n] GetMore
  show ?thesis by (simp add: session_step_def case_prod_beta)
next
  case (KillCursors ids)
  have "cursors_ok (handle_kill_cursors ids st)"
    unfolding cursors_ok_def
  proof (intro allI impI)
    fix i ds assume "cursors (handle_kill_cursors ids st) i = Some ds"
    from handle_kill_cursors_sub [OF this] ok
    show "ds_id ds = i \<and> i \<noteq> 0 \<and> \<not> ds_closed ds
            \<and> unat i \<le> unat (s_gid (handle_kill_cursors ids st))"
      by (simp add: cursors_ok_def handle_kill_cursors_gid)
  qed
  with KillCursors show ?thesis
    by (simp add: session_step_def step_ok_def handle_kill_cursors_gid)
next
  case (Constructed k)
  with room have u: "unat (s_gid st + of_nat k) = unat (s_gid st) + k"
    by (simp add: unat_add_nat_64)
  have "cursors_ok (st\<lparr>s_gid := s_gid st + of_nat k\<rparr>)"
    unfolding cursors_ok_def
  proof (intro allI impI)
    fix i ds assume "cursors (st\<lparr>s_gid := s_gid st + of_nat k\<rparr>) i = Some ds"
    with ok have "ds_id ds = i \<and> i \<noteq> 0 \<and> \<not> ds_closed ds \<and> unat i \<le> unat (s_gid st)"
      by (simp add: cursors_ok_def)
    with u show "ds_id ds = i \<and> i \<noteq> 0 \<and> \<not> ds_closed ds
                   \<and> unat i \<le> unat (s_gid (st\<lparr>s_gid := s_gid st + of_nat k\<rparr>))"
      by simp
  qed
  with u Constructed show ?thesis
    by (simp add: session_step_def step_ok_def generateIDs_counter)
qed

lemma session_run_ok:
  assumes "cursors_ok st" and "unat (s_gid st) + sum_list (map constructions reqs) < 2 ^ 64"
  shows "cursors_ok (session_run batchSize reqs st)
         \<and> unat (s_gid (session_run batchSize reqs st))
             \<le> unat (s_gid st) + sum_list (map constructions reqs)"
  using assms
proof (induction reqs arbitrary: st)
  case Nil
  then show ?case by simp
next
  case (Cons req reqs)
  let ?st = "snd (session_step batchSize req st)"
  from Cons.prems have room: "unat (s_gid st) + constructions req < 2 ^ 64" by simp
  from session_step_ok [OF Cons.prems(1) room, where batchSize = batchSize]
  have s: "cursors_ok ?st" "unat (s_gid ?st) \<le> unat (s_gid st) + constructions req"
    by simp_all
  from s(2) Cons.prems(2)
  have "unat (s_gid ?st) + sum_list (map constructions reqs) < 2 ^ 64" by simp
  from Cons.IH [OF s(1) this] s(2) show ?case by simp
qed

lemma session_run_append:
  "session_run batchSize (pre @ reqs) st
     = session_run batchSize reqs (session_run batchSize pre st)"
  by (induction pre arbitrary: st) simp_all

lemma new_session_ok: "cursors_ok new_session \<and> unat (s_gid new_session) = 0"
  by (simp add: cursors_ok_def new_session_def)

text \<open>
  Claim C10, as the code has it.  A datasource is constructed open, with the counter
  incremented and its new value as the identifier; the identifiers of the first \<open>n\<close>
  constructions of a process, for \<open>n\<close> below \<open>2\<^sup>6\<^sup>4\<close>, are pairwise distinct and not zero.
  Take a session that has served the requests \<open>pre\<close> and serves the request \<open>req\<close>, fewer
  than \<open>2\<^sup>6\<^sup>4\<close> identifiers being drawn in all.  Before and after the request every cursor
  the session keeps is open and stored under its own identifier, which is not zero.  When
  the reply carries a cursor identifier other than 0, the session keeps an open
  datasource with that identifier under it, and every cursor kept under another
  identifier is as it was before the request; for a query no cursor was kept under that
  identifier before, and for a request for more the identifier is the one requested,
  under which a cursor was kept.
\<close>

theorem cursor_ids_nonzero_and_unshared:
  assumes "sum_list (map constructions (pre @ [req])) < 2 ^ 64"
  shows
    "(let st = session_run batchSize pre new_session;
          r = fst (session_step batchSize req st);
          st' = snd (session_step batchSize req st)
      in cursors_ok st \<and> cursors_ok st'
         \<and> (\<forall>rep. r = Some rep \<and> r_cursorID rep \<noteq> 0 \<longrightarrow>
               (\<exists>ds. cursors st' (r_cursorID rep) = Some ds \<and> ds_id ds = r_cursorID rep
                     \<and> \<not> ds_closed ds)
               \<and> (\<forall>j. j \<noteq> r_cursorID rep \<longrightarrow> cursors st' j = cursors st j)
               \<and> (case req of
                     Query reqID flags docs count \<Rightarrow>
                       cursors st (r_cursorID rep) = None \<and> r_cursorID rep = s_gid st + 1
                   | GetMore reqID cursorID count \<Rightarrow>
                       r_cursorID rep = cursorID \<and> cursors st cursorID \<noteq> None
                   | _ \<Rightarrow> True)))
     \<and> (n < 2 ^ 64 \<longrightarrow>
          distinct (fst (generateIDs n 0)) \<and> 0 \<notin> set (fst (generateIDs n 0)))
     \<and> new_datasource g fl items
         = (\<lparr>ds_id = g + 1, ds_pos = 0, ds_closed = False, ds_flags = fl, ds_items = items\<rparr>,
            g + 1)"
proof -
  let ?st = "session_run batchSize pre new_session"
  from assms have pre: "unat (s_gid new_session) + sum_list (map constructions pre) < 2 ^ 64"
    by (simp add: new_session_def)
  from session_run_ok [OF conjunct1 [OF new_session_ok] pre, where batchSize = batchSize]
  have st: "cursors_ok ?st" "unat (s_gid ?st) \<le> sum_list (map constructions pre)"
    by (simp_all add: new_session_def)
  from st(2) assms have room: "unat (s_gid ?st) + constructions req < 2 ^ 64" by simp
  note s = session_step_ok [OF st(1) room, where batchSize = batchSize]
  have a: "cursors_ok (snd (session_step batchSize req ?st))" using s by simp
  have b: "step_ok req ?st (fst (session_step batchSize req ?st))
             (snd (session_step batchSize req ?st))" using s by simp
  have c: "n < 2 ^ 64 \<longrightarrow>
             distinct (fst (generateIDs n 0)) \<and> 0 \<notin> set (fst (generateIDs n 0))"
    using generateIDs_distinct_nonzero [of n] by blast
  have d: "new_datasource g fl items
             = (\<lparr>ds_id = g + 1, ds_pos = 0, ds_closed = False, ds_flags = fl,
                 ds_items = items\<rparr>, g + 1)"
    by (simp add: new_datasource_def generateID_def)
  from st(1) a b [unfolded step_ok_def] c d show ?thesis
    unfolding Let_def by (intro conjI)
qed

lemma first_query_run:
  "session_run SIZE_INF [first_query] new_session = snd keeping_query"
  by (simp add: first_query_def session_step_def keeping_query_def split: prod.split)

lemma second_query_step:
  "session_step SIZE_INF second_query (snd keeping_query)
     = (Some \<lparr>r_size = 48, r_responseTo = 9, r_flags = 0, r_cursorID = 3,
              r_startingFrom = 0, r_numberReturned = 1,
              r_documents = [[(''a'', BInt32 1)]]\<rparr>,
        \<lparr>s_gid = 4,
         cursors = [1 \<mapsto> error_datasource 1 ''boom'', 3 \<mapsto> error_datasource 3 ''boom'']\<rparr>)"
  unfolding keeping_query_eval second_query_def
  by (simp add: session_step_def feed_eval_defs feed_loop.simps error_datasource_def
        error_document_def)

theorem cursor_ids_nonzero_and_unshared_witness:
  "sum_list (map constructions ([first_query] @ [second_query])) < 2 ^ 64
   \<and> (3 :: nat) < 2 ^ 64
   \<and> fst (generateIDs 3 0) = [1, 2, 3]
   \<and> r_cursorID (the (fst (session_step SIZE_INF second_query
                              (session_run SIZE_INF [first_query] new_session)))) = 3
   \<and> cursors (session_run SIZE_INF [first_query] new_session) 3 = None
   \<and> cursors (snd (session_step SIZE_INF second_query
                      (session_run SIZE_INF [first_query] new_session))) 1
       = Some (error_datasource 1 ''boom'')
   \<and> cursors (snd (session_step SIZE_INF second_query
                      (session_run SIZE_INF [first_query] new_session))) 3
       = Some (error_datasource 3 ''boom'')"
  using cursor_ids_nonzero_and_unshared
          [of "[first_query]" second_query SIZE_INF 3 0 0 failing_items]
  unfolding first_query_run second_query_step
  by (simp add: first_query_def second_query_def keeping_query_eval generateID_def
        numeral_3_eq_3)

lemma first_datasource_fed:
  "feed 1 SIZE_INF 7 (Some first_datasource) 2 =
     \<lparr>fr_reply = \<lparr>r_size = 48, r_responseTo = 7, r_flags = 0, r_cursorID = 1,
                   r_startingFrom = 0, r_numberReturned = 1,
                   r_documents = [[(''a'', BInt32 1)]]\<rparr>,
      fr_datasource = Some (error_datasource 1 ''boom''),
      fr_replaced = True, fr_gid = 2\<rparr>"
  unfolding first_datasource_def
  by (simp add: feed_eval_defs feed_loop.simps error_datasource_def error_document_def)

text \<open>
  Two datasources of one process with the same identifier.  The first datasource of the
  process has the identifier 1.  Its second fetch fails: \<^verbatim>\<open>feed\<close> constructs the error
  datasource, which draws the identifier 2, and gives it the identifier 1 of the
  datasource it replaces.
\<close>

theorem feed_error_datasource_shares_id_counterexample:
  "new_datasource 0 0 failing_items = (first_datasource, 1)
   \<and> ds_id first_datasource = 1
   \<and> ds_id (fst (queryError 1 ''boom'')) = 2
   \<and> fr_datasource (feed 1 SIZE_INF 7 (Some first_datasource) 2)
       = Some (setId (ds_id first_datasource) (fst (queryError 1 ''boom'')))
   \<and> fr_gid (feed 1 SIZE_INF 7 (Some first_datasource) 2) = 2
   \<and> setId (ds_id first_datasource) (fst (queryError 1 ''boom'')) \<noteq> first_datasource
   \<and> ds_id (setId (ds_id first_datasource) (fst (queryError 1 ''boom'')))
       = ds_id first_datasource"
  unfolding first_datasource_fed
  by (simp add: first_datasource_def new_datasource_def generateID_def setId_def
        queryError_def FixedDataSource_def error_datasource_def error_document_def
        QUERY_FAILURE_def failing_items_def)

subsection \<open>Routing by the sharding key\<close>

lemmas find_eval_defs =
  config_find_def shards_def collection_of_def database_of_def findPtr_def chunk_range_def
  ns_name_def hashedField_def is_operator_def front_name_def front_array_def no_parts_def
  pair_less_def chunk_key_def upper_bound_def contains_def routing_key_def
  doFind_chunk_def doFind_def set_insert_def vector_key_def bindE_def Let_def
  one_chunk_config_def db_a_def db_b_def cmp_with_missing_def cmp_missing_with_def
  cmp_ord_def zero_version_def

lemma find_other_collection:
  "config_find no_md5 one_chunk_config db_b [(''x'', BInt32 5)] = Inr [(1, ChunkVersion 7 1)]"
  by (simp add: find_eval_defs)

lemma shards_no_chunks: "shards one_chunk_config db_b = Inr []"
  by (simp add: find_eval_defs)

lemma find_empty_no_chunks: "config_find no_md5 one_chunk_config db_b [] = Inr []"
  by (simp add: find_eval_defs)

lemma find_own_collection:
  "config_find no_md5 one_chunk_config db_a [(''x'', BInt32 5)] = Inr [(1, ChunkVersion 7 1)]"
  by (simp add: find_eval_defs)

lemma shards_one_chunk: "shards one_chunk_config db_a = Inr [(1, ChunkVersion 7 1)]"
  by (simp add: find_eval_defs)

lemma findPtr_key: "findPtr key k v = Some x \<Longrightarrow> key x = k"
  by (auto simp: findPtr_def split: list.splits if_splits)

lemma sorted_range_filter:
  "sorted (map f xs) \<Longrightarrow>
     takeWhile (\<lambda>c. \<not> (k::string) < f c) (dropWhile (\<lambda>c. f c < k) xs) = filter (\<lambda>c. f c = k) xs"
proof (induction xs)
  case Nil
  then show ?case by simp
next
  case (Cons x xs)
  then have IH: "takeWhile (\<lambda>c. \<not> k < f c) (dropWhile (\<lambda>c. f c < k) xs) = filter (\<lambda>c. f c = k) xs"
    and le: "\<forall>y\<in>set xs. f x \<le> f y" by simp_all
  show ?case
  proof (cases "f x < k")
    case True
    then show ?thesis using IH by simp
  next
    case False
    then have ge: "\<forall>y\<in>set xs. \<not> f y < k" using le by auto
    then have dw: "dropWhile (\<lambda>c. f c < k) xs = xs"
      by (cases xs) simp_all
    show ?thesis
    proof (cases "f x = k")
      case True
      then show ?thesis using False IH dw by simp
    next
      case ne: False
      with False have gt: "k < f x" by simp
      then have "\<forall>y\<in>set xs. f y \<noteq> k" using le by auto
      then have "filter (\<lambda>c. f c = k) xs = []" by (simp add: filter_empty_conv)
      then show ?thesis using False ne gt by simp
    qed
  qed
qed

lemma chunk_range_filter:
  "sorted (map ch_ns (chunks cfg)) \<Longrightarrow>
     chunk_range cfg ns = filter (\<lambda>c. ch_ns c = ns) (chunks cfg)"
  unfolding chunk_range_def by (rule sorted_range_filter)

lemma upper_bound_lands:
  assumes sorted: "sorted (map ch_ns cs)"
      and range: "filter (\<lambda>c. ch_ns c = ns) cs = c0 # rest"
      and low: "\<not> cmp_objects Less k (lowerBound c0)"
  shows "0 < upper_bound (ns, k) cs"
    and "cs ! (upper_bound (ns, k) cs - 1) \<in> set cs"
    and "ch_ns (cs ! (upper_bound (ns, k) cs - 1)) = ns"
proof -
  let ?P = "\<lambda>c. \<not> pair_less (ns, k) (chunk_key c)"
  let ?T = "takeWhile ?P cs"
  from range obtain A B where cs: "cs = A @ c0 # B"
    and A: "\<forall>a\<in>set A. ch_ns a \<noteq> ns" and c0: "ch_ns c0 = ns"
    by (auto simp: filter_eq_Cons_iff)
  from sorted have leA: "\<forall>a\<in>set A. ch_ns a \<le> ch_ns c0"
    and leB: "\<forall>b\<in>set B. ch_ns c0 \<le> ch_ns b"
    unfolding cs by (auto simp: sorted_append)
  have PA: "\<And>a. a \<in> set A \<Longrightarrow> ?P a"
  proof -
    fix a assume a: "a \<in> set A"
    with leA A c0 have "ch_ns a < ns" by (simp add: order.strict_iff_order)
    then show "?P a" by (auto simp: pair_less_def chunk_key_def)
  qed
  have P0: "?P c0" using low c0 by (simp add: pair_less_def chunk_key_def)
  have T: "?T = A @ c0 # takeWhile ?P B"
    unfolding cs using PA P0 by simp
  then have ne: "?T \<noteq> []" by simp
  then show pos: "0 < upper_bound (ns, k) cs" by (simp add: upper_bound_def)
  have idx: "upper_bound (ns, k) cs - 1 < length ?T" using ne by (simp add: upper_bound_def)
  have nth: "cs ! (upper_bound (ns, k) cs - 1) = last ?T"
    using takeWhile_nth [OF idx] ne by (simp add: last_conv_nth upper_bound_def)
  have mem: "last ?T \<in> set ?T" using ne by simp
  then have inT: "last ?T \<in> set cs" and PT: "?P (last ?T)"
    by (auto dest: set_takeWhileD)
  show "cs ! (upper_bound (ns, k) cs - 1) \<in> set cs" unfolding nth by (rule inT)
  have "last ?T = last (c0 # takeWhile ?P B)" unfolding T by simp
  then have "last ?T \<in> set (c0 # takeWhile ?P B)"
    by (metis last_in_set list.distinct(1))
  then have "last ?T = c0 \<or> last ?T \<in> set B" by (auto dest: set_takeWhileD)
  then have ge: "ns \<le> ch_ns (last ?T)" using leB c0 by auto
  from PT have "\<not> ns < ch_ns (last ?T)" by (simp add: pair_less_def chunk_key_def)
  with ge show "ch_ns (cs ! (upper_bound (ns, k) cs - 1)) = ns" unfolding nth by simp
qed

lemma shards_map_members:
  "shards_map cs m = Inr all \<Longrightarrow>
     set m \<subseteq> set all \<and> (\<forall>c\<in>set cs. (shard c, version c) \<in> set all)"
proof (induction cs arbitrary: m)
  case Nil
  then show ?case by simp
next
  case (Cons c cs)
  show ?case
  proof (cases "map_of m (shard c)")
    case None
    with Cons.prems have "shards_map cs (insort_key fst (shard c, version c) m) = Inr all"
      by simp
    from Cons.IH [OF this] show ?thesis by (auto simp: set_insort_key)
  next
    case (Some v)
    with Cons.prems have v: "v = version c" and r: "shards_map cs m = Inr all"
      by (simp_all split: if_splits)
    from Some v have "(shard c, version c) \<in> set m" by (auto dest: map_of_SomeD)
    with Cons.IH [OF r] show ?thesis by auto
  qed
qed

lemma set_insert_subset: "set (set_insert x s) \<subseteq> insert x (set s)"
  by (auto simp: set_insert_def set_insort_key)

lemma find_vector_members:
  "find_vector f p vs ret = Inr out \<Longrightarrow>
     \<forall>x\<in>set out. x \<in> set ret \<or> (\<exists>v\<in>set vs. f (vector_key p (snd v)) = Inr x)"
proof (induction vs arbitrary: ret)
  case Nil
  then show ?case by simp
next
  case (Cons v vs)
  from Cons.prems obtain y where y: "f (vector_key p (snd v)) = Inr y"
    and r: "find_vector f p vs (set_insert y ret) = Inr out"
    by (cases "f (vector_key p (snd v))") (simp_all add: bindE_def)
  from Cons.IH [OF r] set_insert_subset [of y ret] y show ?case by auto
qed

lemma doFind_in_shards:
  assumes sorted: "sorted (map ch_ns (chunks cfg))"
      and range: "chunk_range cfg (ns_name ns) = c0 # rest"
      and cov: "key_covered md5 hf c0 key"
      and d: "doFind md5 cfg ns hf key = Inr x"
      and s: "shards_map (chunk_range cfg (ns_name ns)) [] = Inr all"
  shows "x \<in> set all"
proof -
  from d obtain c where c: "doFind_chunk md5 cfg ns hf key = Inr c"
    and x: "x = (shard c, version c)"
    by (cases "doFind_chunk md5 cfg ns hf key") (auto simp: doFind_def bindE_def)
  from c obtain k where k: "routing_key md5 hf key = Inr k"
    by (cases "routing_key md5 hf key") (simp_all add: doFind_chunk_def bindE_def)
  with cov have low: "\<not> cmp_objects Less k (lowerBound c0)" by (simp add: key_covered_def)
  from c k have ceq: "c = chunks cfg ! (upper_bound (ns_name ns, k) (chunks cfg) - 1)"
    by (simp add: doFind_chunk_def bindE_def Let_def split: if_splits)
  note rf = chunk_range_filter [OF sorted, of "ns_name ns"]
  from range have filt: "filter (\<lambda>c. ch_ns c = ns_name ns) (chunks cfg) = c0 # rest"
    unfolding rf .
  from upper_bound_lands(2,3) [OF sorted filt low]
  have "c \<in> set (chunks cfg)" "ch_ns c = ns_name ns" unfolding ceq by simp_all
  then have "c \<in> set (chunk_range cfg (ns_name ns))" unfolding rf by simp
  with shards_map_members [OF s] show ?thesis unfolding x by blast
qed

lemma config_find_empty_criteria:
  assumes "collection_of cfg ns = None
           \<or> (\<exists>coll. collection_of cfg ns = Some coll \<and> shardingKey coll \<noteq> [])"
  shows "config_find md5 cfg ns [] = shards cfg ns"
proof (cases "collection_of cfg ns")
  case None
  then show ?thesis by (simp add: config_find_def)
next
  case (Some coll)
  with assms obtain kel ks where "shardingKey coll = kel # ks"
    by (cases "shardingKey coll") auto
  with Some show ?thesis by (simp add: config_find_def bindE_def)
qed

lemma config_find_subset:
  assumes sorted: "sorted (map ch_ns (chunks cfg))"
      and db: "ns_db ns \<noteq> ''config''"
      and cov: "covered md5 cfg ns criteria"
      and f: "config_find md5 cfg ns criteria = Inr vs"
      and s: "shards cfg ns = Inr all"
  shows "set vs \<subseteq> set all"
proof (cases "collection_of cfg ns")
  case None
  with f s show ?thesis by (simp add: config_find_def)
next
  case (Some coll)
  have cn: "coll_ns coll = ns_name ns"
    using Some unfolding collection_of_def by (rule findPtr_key)
  from s db Some have sm: "shards_map (chunk_range cfg (ns_name ns)) [] = Inr all"
    by (simp add: shards_def cn)
  from f Some obtain r where r: "scan_key (shardingKey coll) criteria no_parts = Inr r"
    by (cases "scan_key (shardingKey coll) criteria no_parts")
       (simp_all add: config_find_def bindE_def)
  show ?thesis
  proof (cases r)
    case Uncertain
    with f s Some r show ?thesis by (simp add: config_find_def bindE_def)
  next
    case (Certain p)
    have keys: "find_keys coll criteria =
                  (if vectorName p = [] then [kp_head p]
                   else map (\<lambda>v. vector_key p (snd v)) (vectorValues p))"
      using r Certain by (simp add: find_keys_def)
    show ?thesis
    proof (cases "chunk_range cfg (ns_name ns)")
      case Nil
      with cov Some have nokeys: "find_keys coll criteria = []"
        by (simp add: covered_def cn)
      with keys have vn: "vectorName p \<noteq> []" and vv: "vectorValues p = []"
        by (simp_all split: if_splits)
      with f Some r Certain have "vs = []" by (simp add: config_find_def bindE_def)
      then show ?thesis by simp
    next
      case (Cons c0 rest)
      with cov Some
      have all_cov: "list_all (key_covered md5 (hashedField coll) c0) (find_keys coll criteria)"
        by (simp add: covered_def cn)
      show ?thesis
      proof (cases "vectorName p = []")
        case True
        with f Some r Certain obtain x
          where x: "doFind md5 cfg ns (hashedField coll) (kp_head p) = Inr x" and vs: "vs = [x]"
          by (cases "doFind md5 cfg ns (hashedField coll) (kp_head p)")
             (auto simp: config_find_def bindE_def)
        from all_cov keys True have "key_covered md5 (hashedField coll) c0 (kp_head p)" by simp
        from doFind_in_shards [OF sorted Cons this x sm] vs show ?thesis by simp
      next
        case False
        with f Some r Certain
        have fv: "find_vector (doFind md5 cfg ns (hashedField coll)) p (vectorValues p) [] = Inr vs"
          by (simp add: config_find_def bindE_def)
        show ?thesis
        proof
          fix x assume "x \<in> set vs"
          with find_vector_members [OF fv] obtain v where v: "v \<in> set (vectorValues p)"
            and x: "doFind md5 cfg ns (hashedField coll) (vector_key p (snd v)) = Inr x"
            by auto
          from all_cov keys False v
          have "key_covered md5 (hashedField coll) c0 (vector_key p (snd v))"
            by (simp add: list_all_iff)
          from doFind_in_shards [OF sorted Cons this x sm] show "x \<in> set all" .
        qed
      qed
    qed
  qed
qed

text \<open>
  Where the inclusion holds.  Take a table of chunks sorted by namespace, a namespace
  outside the database \<open>config\<close>, and criteria for which the namespace, if it is a sharded
  collection, has chunks and no key looked up is below the lower bound of the first of
  them.  Then, when both \<open>find\<close> and \<open>shards\<close> return, every shard with its version
  returned by \<open>find\<close> for the criteria is returned by \<open>shards\<close>; and \<open>find\<close> with empty
  criteria is \<open>shards\<close> whenever the namespace is not a sharded collection or its sharding
  key is not empty.
\<close>

lemma config_find_within_shards:
  assumes sorted: "sorted (map ch_ns (chunks cfg))"
      and db: "ns_db ns \<noteq> ''config''"
      and cov: "covered md5 cfg ns criteria"
      and f: "config_find md5 cfg ns criteria = Inr vs"
      and s: "shards cfg ns = Inr all"
  shows "set vs \<subseteq> set all
         \<and> (collection_of cfg ns = None
              \<or> (\<exists>coll. collection_of cfg ns = Some coll \<and> shardingKey coll \<noteq> [])
            \<longrightarrow> config_find md5 cfg ns [] = shards cfg ns)"
  using config_find_subset [OF sorted db cov f s] config_find_empty_criteria [of cfg ns md5]
  by blast

lemma one_chunk_config_sorted: "sorted (map ch_ns (chunks one_chunk_config))"
  by (simp add: one_chunk_config_def)

lemma one_chunk_config_covered: "covered no_md5 one_chunk_config db_a [(''x'', BInt32 5)]"
  by (simp add: covered_def find_keys_def key_covered_def find_eval_defs)

lemma one_chunk_config_collection:
  "collection_of one_chunk_config db_a
     = Some \<lparr>coll_ns = ''db.a'', isDropped = False, shardingKey = [(''x'', BInt32 1)]\<rparr>"
  by (simp add: find_eval_defs)

lemma db_a_not_config: "ns_db db_a \<noteq> ''config''"
  by (simp add: db_a_def)

lemma config_find_within_shards_example:
  "sorted (map ch_ns (chunks one_chunk_config))
   \<and> ns_db db_a \<noteq> ''config''
   \<and> covered no_md5 one_chunk_config db_a [(''x'', BInt32 5)]
   \<and> config_find no_md5 one_chunk_config db_a [(''x'', BInt32 5)] = Inr [(1, ChunkVersion 7 1)]
   \<and> shards one_chunk_config db_a = Inr [(1, ChunkVersion 7 1)]
   \<and> config_find no_md5 one_chunk_config db_a [] = shards one_chunk_config db_a"
  using config_find_within_shards
          [OF one_chunk_config_sorted db_a_not_config one_chunk_config_covered
              find_own_collection shards_one_chunk]
        one_chunk_config_sorted db_a_not_config one_chunk_config_covered
        find_own_collection shards_one_chunk
  by (simp add: one_chunk_config_collection)

lemma find_config_collection:
  "config_find no_md5 config_db_config config_c [(''x'', BInt32 5)] = Inr [(1, ChunkVersion 7 1)]"
  by (simp add: find_eval_defs config_db_config_def config_c_def)

lemma find_empty_config_collection:
  "config_find no_md5 config_db_config config_c [] = Inr [(9, zero_version)]"
  by (simp add: find_eval_defs config_db_config_def config_c_def)

lemma shards_config_collection: "shards config_db_config config_c = Inr [(9, zero_version)]"
  by (simp add: shards_def config_c_def config_db_config_def)

text \<open>
  Claim C3 fails on the code.  The collection \<open>db.b\<close> is sharded by \<open>x\<close> and has no chunk;
  the table of chunks holds the one chunk of \<open>db.a\<close>, unbounded, on shard 1.  With the
  criteria \<open>{x: 5}\<close> the lookup of \<^verbatim>\<open>doFind\<close> lands on the chunk before the upper bound of
  \<open>(db.b, {x: 5})\<close>, which is the chunk of \<open>db.a\<close>, and that chunk contains the key:
  \<open>find\<close> returns shard 1, which holds no part of \<open>db.b\<close>, while \<open>shards\<close>, and \<open>find\<close> with
  empty criteria, return no shard.  And for a sharded collection of the database
  \<open>config\<close>, \<open>shards\<close>, and \<open>find\<close> with empty criteria, answer the shard of the
  configuration servers, while \<open>find\<close> with criteria that fix the key goes by the chunks.
\<close>

theorem config_find_returns_foreign_shard:
  "config_find no_md5 one_chunk_config db_b [(''x'', BInt32 5)] = Inr [(1, ChunkVersion 7 1)]
   \<and> config_find no_md5 one_chunk_config db_b [] = Inr []
   \<and> shards one_chunk_config db_b = Inr []
   \<and> chunk_range one_chunk_config (ns_name db_b) = []
   \<and> sorted (map ch_ns (chunks one_chunk_config))
   \<and> config_find no_md5 config_db_config config_c [(''x'', BInt32 5)] = Inr [(1, ChunkVersion 7 1)]
   \<and> config_find no_md5 config_db_config config_c [] = Inr [(9, zero_version)]
   \<and> shards config_db_config config_c = Inr [(9, zero_version)]"
  unfolding find_other_collection find_empty_no_chunks shards_no_chunks
    find_config_collection find_empty_config_collection shards_config_collection
  by (simp add: chunk_range_def one_chunk_config_def db_b_def ns_name_def)

end
